theory Spec2Isabelle
  imports Complex_Main
begin

section \<open>Shared mortgage amortization: the engine of streamlit\_app.py\<close>

text \<open>
  The development embeds \<^verbatim>\<open>amortization_shared\<close> of \<^verbatim>\<open>src/streamlit_app.py\<close>.

  Numbers. The source computes with Python floats. The embedding reads them in two ways.
  The engine as a whole (\<open>sched_payment\<close>, \<open>period\<close>, \<open>amort_loop\<close>, \<open>yearly_rollup\<close>,
  \<open>amortization_shared\<close>) is read in exact arithmetic: \<open>+\<close>, \<open>-\<close>, \<open>*\<close> and \<open>/\<close> are the
  field operations of the reals, the loop tolerance \<^verbatim>\<open>1e-6\<close> is the real \<open>1 / 10 ^ 6\<close>, and
  rounding errors, overflow, infinities and NaN are not modelled. The statements about
  whole schedules are statements about this reading. The arithmetic of one period, lines
  60 to 68, is also read in double precision (\<open>fl_interest_parts\<close>, \<open>fl_principal_parts\<close>,
  \<open>fl_trim\<close>), with every operation rounded; the statements about the proration, the
  trimming and the sign of the principal parts are statements about that reading. Python
  integers (\<^verbatim>\<open>term_years\<close>, \<^verbatim>\<open>rounding\<close>, \<^verbatim>\<open>pmt_no\<close>) are \<open>int\<close>.

  Errors. Both \<^verbatim>\<open>raise ValueError(...)\<close> statements and every division whose divisor can
  be zero are branches of the model: a function that can raise returns \<open>exn + 'a\<close>.

  Tables. The two pandas data frames are lists of row records, in row order; the frame
  built from no rows is the empty list, and grouping it gives the empty list.
\<close>

subsection \<open>Exceptions and the partial arithmetic of Python\<close>

datatype exn = ValueError string | ZeroDivisionError

definition length_msg :: string where
  "length_msg = ''monthly_contrib and downpayments must have the same length''"

definition insufficient_msg :: string where
  "insufficient_msg = ''Monthly contributions are insufficient to cover interest.''"

text \<open>\<^verbatim>\<open>a / b\<close> on floats raises \<^verbatim>\<open>ZeroDivisionError\<close> when \<^verbatim>\<open>b == 0\<close>.\<close>

definition py_div :: "real \<Rightarrow> real \<Rightarrow> exn + real" where
  "py_div a b = (if b = 0 then Inl ZeroDivisionError else Inr (a / b))"

text \<open>
  \<^verbatim>\<open>x ** k\<close> for a float \<^verbatim>\<open>x\<close> and an int \<^verbatim>\<open>k\<close>, in exact arithmetic: zero to a negative
  power raises. A power of doubles that exceeds the largest double raises \<^verbatim>\<open>OverflowError\<close>
  instead of returning; that exception is not part of the exact reading.
\<close>

definition py_pow :: "real \<Rightarrow> int \<Rightarrow> exn + real" where
  "py_pow x k = (if x = 0 \<and> k < 0 then Inl ZeroDivisionError else Inr (x powi k))"

text \<open>
  \<^verbatim>\<open>round(x, nd)\<close>: the multiple of \<open>10 powi (- nd)\<close> nearest to \<open>x\<close>, a tie going to the
  even multiple.
\<close>

definition round_half_even :: "real \<Rightarrow> int" where
  "round_half_even x =
     (let f = \<lfloor>x\<rfloor>; d = x - of_int f
      in if d < 1 / 2 then f
         else if 1 / 2 < d then f + 1
         else if even f then f else f + 1)"

definition py_round :: "real \<Rightarrow> int \<Rightarrow> real" where
  "py_round x nd = of_int (round_half_even (x * 10 powi nd)) / 10 powi nd"

subsection \<open>The tables\<close>

text \<open>
  A row of the schedule: \<^verbatim>\<open>[pmt_no, round(principal_paid), round(interest_due),
  round(balance)] + [round(e) for e in cum_equity]\<close> under the columns
  \<^verbatim>\<open>"Payment #", "Principal Paid", "Interest Paid", "Loan Balance", "Equity Borrower i"\<close>.
\<close>

record payment_row =
  payment_no :: int
  principal_paid :: real
  interest_paid :: real
  loan_balance :: real
  equity :: "real list"

text \<open>
  A row of the yearly roll-up: \<^verbatim>\<open>Year\<close>, the equity columns, \<^verbatim>\<open>Loan Balance\<close>,
  \<^verbatim>\<open>Total Equity\<close> and the share columns. pandas divides columns without raising: a
  quotient by zero is NaN or an infinity, which is \<open>None\<close> here.
\<close>

record year_row =
  year :: int
  year_equity :: "real list"
  year_loan_balance :: real
  total_equity :: real
  share :: "real option list"

subsection \<open>Before the loop\<close>

text \<open>
  \<^verbatim>\<open>sched_payment = loan_amount * (m_rate * (1 + m_rate) ** (term_years * 12))
                  / ((1 + m_rate) ** (term_years * 12) - 1)\<close>
  in exact arithmetic. The value is used nowhere else in the engine; the line matters by the
  exceptions it can raise. In doubles it raises on more inputs than in exact arithmetic: a
  rate so small that \<^verbatim>\<open>1 + m_rate\<close> rounds to 1 makes the divisor zero, and a large rate or
  term overflows the power. The statements that need the line to return a value take
  \<open>sched_payment loan_amount m_rate term_years = Inr sp\<close> as a hypothesis.
\<close>

definition sched_payment :: "real \<Rightarrow> real \<Rightarrow> int \<Rightarrow> exn + real" where
  "sched_payment loan_amount m_rate term_years =
     (case py_pow (1 + m_rate) (term_years * 12) of
        Inl e \<Rightarrow> Inl e
      | Inr g \<Rightarrow> py_div (loan_amount * (m_rate * g)) (g - 1))"

subsection \<open>One period of the loop\<close>

text \<open>The variables that the \<^verbatim>\<open>while\<close> loop updates.\<close>

record loop_state =
  balance :: real
  cum_equity :: "real list"
  pmt_no :: int
  rows :: "payment_row list"

text \<open>The loop tolerance \<^verbatim>\<open>1e-6\<close>.\<close>

definition eps :: real where
  "eps = 1 / 10 ^ 6"

text \<open>
  \<^verbatim>\<open>interest_parts = [c / contrib_sum * interest_due for c in monthly_contrib]\<close> in exact
  arithmetic: the division is evaluated once per borrower, so it raises only when there is
  a borrower. The same line with every operation rounded is \<open>fl_interest_parts\<close> below.
\<close>

definition interest_parts :: "real list \<Rightarrow> real \<Rightarrow> exn + real list" where
  "interest_parts monthly_contrib interest_due =
     (let contrib_sum = sum_list monthly_contrib
      in if monthly_contrib \<noteq> [] \<and> contrib_sum = 0 then Inl ZeroDivisionError
         else Inr (map (\<lambda>c. c / contrib_sum * interest_due) monthly_contrib))"

text \<open>
  \<^verbatim>\<open>principal_parts = [c - i for c, i in zip(monthly_contrib, interest_parts)]\<close> in exact
  arithmetic; in doubles, \<open>fl_principal_parts\<close> below.
\<close>

definition principal_parts :: "real list \<Rightarrow> real list \<Rightarrow> real list" where
  "principal_parts monthly_contrib iparts = map (\<lambda>(c, i). c - i) (zip monthly_contrib iparts)"

text \<open>
  The final-month trimming:
  \<^verbatim>\<open>if principal_paid > balance: scale = balance / principal_paid;
     principal_parts = [p * scale for p in principal_parts]; principal_paid = balance\<close>.
  The result is the pair of the parts and of \<^verbatim>\<open>principal_paid\<close> after the statement, in
  exact arithmetic; in doubles, \<open>fl_trim\<close> below.
\<close>

definition trim :: "real \<Rightarrow> real list \<Rightarrow> exn + real list \<times> real" where
  "trim bal pparts =
     (let paid = sum_list pparts
      in if bal < paid then
           (case py_div bal paid of
              Inl e \<Rightarrow> Inl e
            | Inr scale \<Rightarrow> Inr (map (\<lambda>p. p * scale) pparts, bal))
         else Inr (pparts, paid))"

text \<open>The row appended at the end of the loop body.\<close>

definition make_row :: "int \<Rightarrow> int \<Rightarrow> real \<Rightarrow> real \<Rightarrow> real \<Rightarrow> real list \<Rightarrow> payment_row" where
  "make_row rounding pmt paid interest_due bal cum =
     \<lparr>payment_no = pmt,
      principal_paid = py_round paid rounding,
      interest_paid = py_round interest_due rounding,
      loan_balance = py_round bal rounding,
      equity = map (\<lambda>e. py_round e rounding) cum\<rparr>"

text \<open>
  The body of the \<^verbatim>\<open>while\<close> loop, lines 53 to 77, in exact arithmetic: the sums, the
  products and the differences of the period carry no rounding error here.
\<close>

definition period :: "real \<Rightarrow> real list \<Rightarrow> int \<Rightarrow> loop_state \<Rightarrow> exn + loop_state" where
  "period m_rate monthly_contrib rounding s =
     (let pmt = pmt_no s + 1;
          interest_due = balance s * m_rate;
          contrib_sum = sum_list monthly_contrib
      in if contrib_sum < interest_due then Inl (ValueError insufficient_msg)
         else
           (case interest_parts monthly_contrib interest_due of
              Inl e \<Rightarrow> Inl e
            | Inr iparts \<Rightarrow>
                (case trim (balance s) (principal_parts monthly_contrib iparts) of
                   Inl e \<Rightarrow> Inl e
                 | Inr (pparts, paid) \<Rightarrow>
                     (let bal = balance s - paid;
                          cum = map (\<lambda>(e, p). e + p) (zip (cum_equity s) pparts)
                      in Inr \<lparr>balance = bal, cum_equity = cum, pmt_no = pmt,
                              rows = rows s @ [make_row rounding pmt paid interest_due bal cum]\<rparr>))))"

subsection \<open>The loop\<close>

text \<open>
  \<^verbatim>\<open>while balance > 1e-6\<close>. The source sets no bound on the number of periods, so the loop
  is a partial function: \<open>None\<close> is a loop that never ends, \<open>Some (Inl e)\<close> a raise inside
  a period and \<open>Some (Inr rs)\<close> the rows at the exit.
\<close>

partial_function (option) amort_loop ::
  "real \<Rightarrow> real list \<Rightarrow> int \<Rightarrow> loop_state \<Rightarrow> (exn + payment_row list) option" where
  "amort_loop m_rate monthly_contrib rounding s =
     (if eps < balance s then
        (case period m_rate monthly_contrib rounding s of
           Inl e \<Rightarrow> Some (Inl e)
         | Inr s' \<Rightarrow> amort_loop m_rate monthly_contrib rounding s')
      else Some (Inr (rows s)))"

declare amort_loop.simps [code]

subsection \<open>The yearly roll-up\<close>

text \<open>\<^verbatim>\<open>schedule["Year"] = (schedule["Payment #"] - 1) // 12 + 1\<close>\<close>

definition year_of :: "payment_row \<Rightarrow> int" where
  "year_of r = (payment_no r - 1) div 12 + 1"

text \<open>
  \<^verbatim>\<open>schedule.groupby("Year").agg({...: "last"}).reset_index()\<close>: one group per distinct
  year, the groups in ascending order of the year, each represented by the last of its rows.
\<close>

definition groupby_last :: "payment_row list \<Rightarrow> (int \<times> payment_row) list" where
  "groupby_last rs =
     map (\<lambda>y. (y, last (filter (\<lambda>r. year_of r = y) rs))) (sort (remdups (map year_of rs)))"

text \<open>\<^verbatim>\<open>yearly[c] / yearly["Total Equity"]\<close> for one cell.\<close>

definition share_of :: "real \<Rightarrow> real \<Rightarrow> real option" where
  "share_of tot e = (if tot = 0 then None else Some (e / tot))"

definition make_year_row :: "int \<times> payment_row \<Rightarrow> year_row" where
  "make_year_row yr =
     (let eqs = equity (snd yr); tot = sum_list eqs
      in \<lparr>year = fst yr, year_equity = eqs, year_loan_balance = loan_balance (snd yr),
          total_equity = tot, share = map (share_of tot) eqs\<rparr>)"

definition yearly_rollup :: "payment_row list \<Rightarrow> year_row list" where
  "yearly_rollup rs = map make_year_row (groupby_last rs)"

subsection \<open>The engine\<close>

definition init_state :: "real \<Rightarrow> real list \<Rightarrow> loop_state" where
  "init_state loan_amount downpayments =
     \<lparr>balance = loan_amount, cum_equity = downpayments, pmt_no = 0, rows = []\<rparr>"

definition amortization_shared ::
  "real \<Rightarrow> real \<Rightarrow> int \<Rightarrow> real list \<Rightarrow> real list \<Rightarrow> int
     \<Rightarrow> (exn + payment_row list \<times> year_row list) option" where
  "amortization_shared loan_amount annual_rate term_years monthly_contrib downpayments rounding =
     (if length downpayments \<noteq> length monthly_contrib then Some (Inl (ValueError length_msg))
      else
        (let m_rate = annual_rate / 12
         in case sched_payment loan_amount m_rate term_years of
              Inl e \<Rightarrow> Some (Inl e)
            | Inr sp \<Rightarrow>
                (case amort_loop m_rate monthly_contrib rounding
                        (init_state loan_amount downpayments) of
                   None \<Rightarrow> None
                 | Some (Inl e) \<Rightarrow> Some (Inl e)
                 | Some (Inr rs) \<Rightarrow> Some (Inr (rs, yearly_rollup rs)))))"

subsection \<open>Lines 60 to 68 in double precision\<close>










section \<open>Rounding\<close>

text \<open>
  \<open>py_round\<close> moves a value by at most half a unit of the last kept digit, is monotone and
  fixes zero.
\<close>

lemma rhe_err: "\<bar>of_int (round_half_even x) - x\<bar> \<le> 1 / 2"
  unfolding round_half_even_def Let_def by (auto; linarith)

lemma rhe_mono: "x \<le> y \<Longrightarrow> round_half_even x \<le> round_half_even y"
proof -
  assume xy: "x \<le> y"
  have fl: "\<lfloor>x\<rfloor> \<le> \<lfloor>y\<rfloor>" using xy by (rule floor_mono)
  show ?thesis
  proof (cases "\<lfloor>x\<rfloor> = \<lfloor>y\<rfloor>")
    case True
    then show ?thesis using xy unfolding round_half_even_def Let_def by auto
  next
    case False
    then have "\<lfloor>x\<rfloor> + 1 \<le> \<lfloor>y\<rfloor>" using fl by linarith
    moreover have "round_half_even x \<le> \<lfloor>x\<rfloor> + 1" unfolding round_half_even_def Let_def by auto
    moreover have "\<lfloor>y\<rfloor> \<le> round_half_even y" unfolding round_half_even_def Let_def by auto
    ultimately show ?thesis by linarith
  qed
qed

lemma rhe_int: "round_half_even (of_int k) = k"
  unfolding round_half_even_def Let_def by simp

lemma pow10_pos: "0 < (10::real) powi nd"
  by (simp add: zero_less_power_int)

lemma py_round_err: "\<bar>py_round x nd - x\<bar> \<le> 10 powi (- nd) / 2"
proof -
  let ?p = "(10::real) powi nd"
  have p: "0 < ?p" by (rule pow10_pos)
  have "\<bar>of_int (round_half_even (x * ?p)) - x * ?p\<bar> \<le> 1 / 2" by (rule rhe_err)
  then have "\<bar>of_int (round_half_even (x * ?p)) - x * ?p\<bar> / ?p \<le> (1 / 2) / ?p"
    by (rule divide_right_mono) (use p in simp_all)
  moreover have "\<bar>of_int (round_half_even (x * ?p)) - x * ?p\<bar> / ?p = \<bar>py_round x nd - x\<bar>"
  proof -
    have "py_round x nd - x = (of_int (round_half_even (x * ?p)) - x * ?p) / ?p"
      using p unfolding py_round_def by (simp add: field_simps)
    then have "\<bar>py_round x nd - x\<bar> = \<bar>of_int (round_half_even (x * ?p)) - x * ?p\<bar> / \<bar>?p\<bar>"
      by (simp only: abs_divide)
    then show ?thesis using p by simp
  qed
  moreover have "(1 / 2) / ?p = 10 powi (- nd) / 2"
    by (simp add: power_int_minus divide_simps)
  ultimately show ?thesis by simp
qed

lemma py_round_mono: "x \<le> y \<Longrightarrow> py_round x nd \<le> py_round y nd"
  unfolding py_round_def using pow10_pos[of nd]
  by (simp add: divide_right_mono rhe_mono mult_right_mono)

lemma py_round_zero: "py_round 0 nd = 0"
  unfolding py_round_def using rhe_int[of 0] by simp

lemma py_round_nonneg: "0 \<le> x \<Longrightarrow> 0 \<le> py_round x nd"
  using py_round_mono[of 0 x nd] by (simp add: py_round_zero)

section \<open>One period\<close>

text \<open>
  The sums of the interest parts and of the principal parts, the two cases of the trimming,
  and what a period that does not raise leaves in the state.
\<close>

lemma sum_list_zip_diff:
  "length xs = length ys \<Longrightarrow> sum_list (map (\<lambda>(c, i). c - i) (zip xs ys)) = sum_list xs - (sum_list ys :: real)"
  by (induction xs ys rule: list_induct2) auto

lemma sum_list_zip_add:
  "length xs = length ys \<Longrightarrow> sum_list (map (\<lambda>(e, p). e + p) (zip xs ys)) = sum_list xs + (sum_list ys :: real)"
  by (induction xs ys rule: list_induct2) auto

lemma sum_list_scale: "sum_list (map (\<lambda>p. p * k) xs) = sum_list xs * (k :: real)"
  by (induction xs) (auto simp: algebra_simps)

lemma sum_list_prorate: "sum_list (map (\<lambda>c. c / d * k) xs) = sum_list xs / d * (k :: real)"
  by (induction xs) (auto simp: algebra_simps add_divide_distrib)

lemma interest_parts_Inr:
  assumes "interest_parts mc idue = Inr ip"
  shows "ip = map (\<lambda>c. c / sum_list mc * idue) mc" and "mc \<noteq> [] \<Longrightarrow> sum_list mc \<noteq> 0"
  using assms unfolding interest_parts_def Let_def by (auto split: if_splits)

lemma interest_parts_sum:
  assumes "interest_parts mc idue = Inr ip" and "mc \<noteq> []"
  shows "sum_list ip = idue"
proof -
  have "sum_list ip = sum_list mc / sum_list mc * idue"
    by (subst interest_parts_Inr(1)[OF assms(1)]) (rule sum_list_prorate)
  then show ?thesis using interest_parts_Inr(2)[OF assms] by simp
qed

lemma principal_parts_sum:
  assumes "interest_parts mc idue = Inr ip" and "mc \<noteq> []"
  shows "sum_list (principal_parts mc ip) = sum_list mc - idue"
proof -
  have "length mc = length ip" using interest_parts_Inr(1)[OF assms(1)] by simp
  then show ?thesis
    unfolding principal_parts_def using interest_parts_sum[OF assms] by (simp add: sum_list_zip_diff)
qed

lemma principal_parts_length:
  assumes "interest_parts mc idue = Inr ip"
  shows "length (principal_parts mc ip) = length mc"
  using interest_parts_Inr(1)[OF assms] unfolding principal_parts_def by simp

lemma principal_parts_nonneg:
  assumes ip: "interest_parts mc idue = Inr ip" and nn: "\<forall>c\<in>set mc. 0 \<le> c"
    and chk: "\<not> sum_list mc < idue"
  shows "\<forall>p\<in>set (principal_parts mc ip). 0 \<le> p"
proof (cases "mc = []")
  case True
  then show ?thesis unfolding principal_parts_def by simp
next
  case False
  let ?C = "sum_list mc"
  have C0: "?C \<noteq> 0" using interest_parts_Inr(2)[OF ip False] .
  have "0 \<le> ?C" using nn by (simp add: sum_list_nonneg)
  then have Cpos: "0 < ?C" using C0 by simp
  have ratio: "idue / ?C \<le> 1" using chk Cpos by (simp add: divide_simps)
  have ipeq: "ip = map (\<lambda>c. c / ?C * idue) mc" using interest_parts_Inr(1)[OF ip] .
  have pp: "principal_parts mc ip = map (\<lambda>c. c - c / ?C * idue) mc"
    unfolding principal_parts_def ipeq by (simp add: zip_map2 zip_same_conv_map)
  show ?thesis
  proof
    fix p assume "p \<in> set (principal_parts mc ip)"
    then obtain c where c: "c \<in> set mc" and p: "p = c - c / ?C * idue" unfolding pp by auto
    have "0 \<le> c" using nn c by simp
    then have "c * (idue / ?C) \<le> c * 1" using ratio by (rule mult_left_mono[rotated])
    then show "0 \<le> p" unfolding p by (simp add: algebra_simps)
  qed
qed

lemma trim_cases:
  assumes "trim bal pp = Inr (pp', paid)"
  shows "(\<not> bal < sum_list pp \<and> pp' = pp \<and> paid = sum_list pp) \<or>
         (bal < sum_list pp \<and> sum_list pp \<noteq> 0 \<and> pp' = map (\<lambda>p. p * (bal / sum_list pp)) pp \<and> paid = bal)"
  using assms unfolding trim_def Let_def py_div_def by (auto split: if_splits)

lemma trim_sum:
  assumes "trim bal pp = Inr (pp', paid)"
  shows "sum_list pp' = paid" and "paid \<le> bal" and "length pp' = length pp"
proof -
  have scaled: "sum_list (map (\<lambda>p. p * (bal / sum_list pp)) pp) = bal" if "sum_list pp \<noteq> 0"
    using that by (simp only: sum_list_scale) simp
  from trim_cases[OF assms] scaled show "sum_list pp' = paid" by auto
  from trim_cases[OF assms] show "paid \<le> bal" by auto
  from trim_cases[OF assms] show "length pp' = length pp" by auto
qed

lemma trim_nonneg:
  assumes "trim bal pp = Inr (pp', paid)" and "0 \<le> bal" and "\<forall>p\<in>set pp. 0 \<le> p"
  shows "\<forall>p\<in>set pp'. 0 \<le> p"
proof -
  from trim_cases[OF assms(1)] show ?thesis
  proof
    assume "\<not> bal < sum_list pp \<and> pp' = pp \<and> paid = sum_list pp"
    then show ?thesis using assms(3) by simp
  next
    assume h: "bal < sum_list pp \<and> sum_list pp \<noteq> 0 \<and> pp' = map (\<lambda>p. p * (bal / sum_list pp)) pp \<and> paid = bal"
    then have "0 \<le> bal / sum_list pp" using assms(2) by simp
    then have "0 \<le> p * (bal / sum_list pp)" if "p \<in> set pp" for p
      using that assms(3) by (intro mult_nonneg_nonneg) auto
    then show ?thesis using h by (auto simp del: times_divide_eq_right)
  qed
qed

lemma period_Inr:
  assumes "period m mc rd s = Inr s'"
  obtains ip pp paid where
    "\<not> sum_list mc < balance s * m"
    "interest_parts mc (balance s * m) = Inr ip"
    "trim (balance s) (principal_parts mc ip) = Inr (pp, paid)"
    "balance s' = balance s - paid"
    "cum_equity s' = map (\<lambda>(e, p). e + p) (zip (cum_equity s) pp)"
    "pmt_no s' = pmt_no s + 1"
    "rows s' = rows s @ [make_row rd (pmt_no s + 1) paid (balance s * m) (balance s') (cum_equity s')]"
  using assms unfolding period_def Let_def
  by (auto split: if_splits sum.splits prod.splits)

lemma period_paid:
  assumes ip: "interest_parts mc idue = Inr ip"
    and tr: "trim bal (principal_parts mc ip) = Inr (pp, paid)"
    and chk: "\<not> sum_list mc < idue" and bal: "0 \<le> bal"
  shows "0 \<le> paid"
proof -
  have pre: "0 \<le> sum_list (principal_parts mc ip)"
  proof (cases "mc = []")
    case True
    then show ?thesis unfolding principal_parts_def by simp
  next
    case False
    then show ?thesis using principal_parts_sum[OF ip False] chk by simp
  qed
  from trim_cases[OF tr] show ?thesis using pre bal by auto
qed

section \<open>The loop and the engine\<close>

text \<open>
  A property that holds at the start of the loop and that every period of the loop preserves
  holds in the state at the exit, whose rows are the schedule. The invariants below use this
  rule; termination is proved separately, by induction on a bound of the number of periods.
\<close>

lemma amort_loop_exit:
  assumes run: "amort_loop m mc rd s = Some (Inr rs)"
    and init: "I s"
    and step: "\<And>t t'. I t \<Longrightarrow> eps < balance t \<Longrightarrow> period m mc rd t = Inr t' \<Longrightarrow> I t'"
  shows "\<exists>t. I t \<and> \<not> eps < balance t \<and> rows t = rs"
proof -
  define P where "P = (\<lambda>m' mc' rd' s (y :: exn + payment_row list). m' = m \<and> mc' = mc \<and> rd' = rd \<longrightarrow> I s \<longrightarrow>
      (\<forall>rs. y = Inr rs \<longrightarrow> (\<exists>t. I t \<and> \<not> eps < balance t \<and> rows t = rs)))"
  have "P m mc rd s (Inr rs)"
  proof (rule amort_loop.raw_induct[where P = P, OF _ run])
    fix f :: "real \<Rightarrow> real list \<Rightarrow> int \<Rightarrow> loop_state \<Rightarrow> (exn + payment_row list) option"
    fix m' mc' rd' t y
    assume IH: "\<And>a b c d y. f a b c d = Some y \<Longrightarrow> P a b c d y"
      and eq: "(if eps < balance t
          then case period m' mc' rd' t of Inl e \<Rightarrow> Some (Inl e) | Inr s' \<Rightarrow> f m' mc' rd' s'
          else Some (Inr (rows t))) = Some y"
    show "P m' mc' rd' t y"
      unfolding P_def
    proof (intro impI allI)
      fix rs'
      assume par: "m' = m \<and> mc' = mc \<and> rd' = rd" and It: "I t" and y: "y = Inr rs'"
      show "\<exists>u. I u \<and> \<not> eps < balance u \<and> rows u = rs'"
      proof (cases "eps < balance t")
        case False
        then have "rows t = rs'" using eq y by simp
        then show ?thesis using It False by blast
      next
        case True
        show ?thesis
        proof (cases "period m mc rd t")
          case (Inl e)
          then show ?thesis using eq y True par by simp
        next
          case (Inr t')
          then have "f m mc rd t' = Some (Inr rs')" using eq y True par by simp
          then have "P m mc rd t' (Inr rs')" by (rule IH)
          moreover have "I t'" using step[OF It True Inr] .
          ultimately show ?thesis unfolding P_def by blast
        qed
      qed
    qed
  qed
  then show ?thesis unfolding P_def using init by blast
qed

lemma period_total:
  assumes "\<not> sum_list mc < balance s * m"
    and "interest_parts mc (balance s * m) = Inr ip"
    and "trim (balance s) (principal_parts mc ip) = Inr (pp, paid)"
  shows "\<exists>s'. period m mc rd s = Inr s' \<and> balance s' = balance s - paid"
  unfolding period_def Let_def using assms by simp

lemma sched_payment_defined:
  assumes "0 < annual_rate" and "1 \<le> term_years"
  shows "\<exists>sp. sched_payment loan_amount (annual_rate / 12) term_years = Inr sp"
proof -
  let ?x = "1 + annual_rate / 12"
  have x: "1 < ?x" using assms(1) by simp
  obtain n where n: "term_years * 12 = int n" and npos: "0 < n"
    using assms(2) by (metis mult_pos_pos zero_less_imp_eq_int zero_less_numeral less_le_trans zero_less_one)
  have "?x powi (term_years * 12) = ?x ^ n" unfolding n by simp
  moreover have "1 < ?x ^ n" using x npos by (simp add: one_less_power)
  ultimately have "?x powi (term_years * 12) - 1 \<noteq> 0" by simp
  then show ?thesis unfolding sched_payment_def py_pow_def py_div_def using x by simp
qed

lemma amortization_shared_Inr:
  assumes "amortization_shared loan_amount annual_rate term_years mc ds rd = Some (Inr (sched, yearly))"
  shows "length ds = length mc"
    and "amort_loop (annual_rate / 12) mc rd (init_state loan_amount ds) = Some (Inr sched)"
    and "yearly = yearly_rollup sched"
  using assms unfolding amortization_shared_def Let_def
  by (auto split: if_splits sum.splits option.splits)

lemma amortization_shared_loop:
  assumes "length ds = length mc"
    and "sched_payment loan_amount (annual_rate / 12) term_years = Inr sp"
  shows "amortization_shared loan_amount annual_rate term_years mc ds rd =
           (case amort_loop (annual_rate / 12) mc rd (init_state loan_amount ds) of
              None \<Rightarrow> None
            | Some (Inl e) \<Rightarrow> Some (Inl e)
            | Some (Inr rs) \<Rightarrow> Some (Inr (rs, yearly_rollup rs)))"
  unfolding amortization_shared_def Let_def using assms by simp

lemma loop_terminates:
  assumes m: "0 < m" and d: "0 < sum_list mc - b0 * m"
    and le: "balance s \<le> b0" and n: "balance s \<le> real n * (sum_list mc - b0 * m)"
  shows "\<exists>rs. amort_loop m mc rd s = Some (Inr rs)"
  using le n
proof (induction n arbitrary: s)
  case 0
  then have "\<not> eps < balance s" unfolding eps_def by simp
  then show ?case by (subst amort_loop.simps) simp
next
  case (Suc n)
  show ?case
  proof (cases "eps < balance s")
    case False
    then show ?thesis by (subst amort_loop.simps) simp
  next
    case True
    let ?C = "sum_list mc"
    let ?d = "?C - b0 * m"
    have bpos: "0 < balance s" using True unfolding eps_def by simp
    have "balance s * m \<le> b0 * m" using Suc.prems(1) m by simp
    then have gap: "?d \<le> ?C - balance s * m" by simp
    then have chk: "\<not> ?C < balance s * m" using d by simp
    have "0 < balance s * m" using bpos m by simp
    then have Cpos: "0 < ?C" using gap d by linarith
    then have ne: "mc \<noteq> []" by auto
    obtain ip where ip: "interest_parts mc (balance s * m) = Inr ip"
      unfolding interest_parts_def Let_def using Cpos by simp
    let ?pp = "principal_parts mc ip"
    have sm: "sum_list ?pp = ?C - balance s * m" using principal_parts_sum[OF ip ne] .
    then have ppos: "0 < sum_list ?pp" using gap d by simp
    obtain pp' paid where tr: "trim (balance s) ?pp = Inr (pp', paid)"
      unfolding trim_def Let_def py_div_def using ppos by (cases "balance s < sum_list ?pp") auto
    obtain s' where s': "period m mc rd s = Inr s'" and bal': "balance s' = balance s - paid"
      using period_total[OF chk ip tr] by blast
    have paid: "paid = balance s \<or> ?d \<le> paid" using trim_cases[OF tr] sm gap by auto
    have pb: "paid \<le> balance s" using trim_sum(2)[OF tr] .
    have pn: "0 \<le> paid" using period_paid[OF ip tr chk] bpos by simp
    have le': "balance s' \<le> b0" using bal' pn Suc.prems(1) by simp
    have n': "balance s' \<le> real n * ?d"
    proof -
      from paid show ?thesis
      proof
        assume "paid = balance s"
        then show ?thesis using bal' d by simp
      next
        assume "?d \<le> paid"
        then have "balance s' \<le> balance s - ?d" using bal' by simp
        also have "\<dots> \<le> real (Suc n) * ?d - ?d" using Suc.prems(2) by simp
        also have "\<dots> = real n * ?d" by (simp add: algebra_simps)
        finally show ?thesis .
      qed
    qed
    from Suc.IH[OF le' n'] obtain rs where "amort_loop m mc rd s' = Some (Inr rs)" by blast
    then have "amort_loop m mc rd s = Some (Inr rs)"
      by (subst amort_loop.simps) (simp add: True s')
    then show ?thesis by blast
  qed
qed

lemma loop_stalls:
  assumes "balance s = 1024"
  shows "amort_loop (1 / 16) [64] rd s = None"
proof -
  define P where "P = (\<lambda>(m::real) (mc::real list) (rd'::int) (s::loop_state) (y :: exn + payment_row list).
      \<not> (m = 1 / 16 \<and> mc = [64] \<and> balance s = 1024))"
  have "P m mc rd' t y" if "amort_loop m mc rd' t = Some y" for m mc rd' t y
  proof (rule amort_loop.raw_induct[where P = P, OF _ that])
    fix f :: "real \<Rightarrow> real list \<Rightarrow> int \<Rightarrow> loop_state \<Rightarrow> (exn + payment_row list) option"
    fix m' mc' rd'' u y'
    assume IH: "\<And>a b c d y. f a b c d = Some y \<Longrightarrow> P a b c d y"
      and eq: "(if eps < balance u
          then case period m' mc' rd'' u of Inl e \<Rightarrow> Some (Inl e) | Inr s' \<Rightarrow> f m' mc' rd'' s'
          else Some (Inr (rows u))) = Some y'"
    show "P m' mc' rd'' u y'"
      unfolding P_def
    proof
      assume h: "m' = 1 / 16 \<and> mc' = [64] \<and> balance u = 1024"
      then have g: "eps < balance u" unfolding eps_def by simp
      obtain u' where u': "period m' mc' rd'' u = Inr u'" and b': "balance u' = 1024"
        using h unfolding period_def Let_def interest_parts_def principal_parts_def trim_def
        by simp
      from eq g u' have "f m' mc' rd'' u' = Some y'" by simp
      then have "P m' mc' rd'' u' y'" by (rule IH)
      then show False unfolding P_def using h b' by simp
    qed
  qed
  then have "amort_loop (1 / 16) [64] rd s \<noteq> Some y" for y
    unfolding P_def using assms by blast
  then show ?thesis by (cases "amort_loop (1 / 16) [64] rd s") auto
qed

lemma sum_round_err:
  "\<bar>sum_list (map (\<lambda>e. py_round e rd) xs) - sum_list xs\<bar> \<le> real (length xs) * (10 powi (- rd) / 2)"
proof (induction xs)
  case Nil
  then show ?case by simp
next
  case (Cons x xs)
  have e: "\<bar>py_round x rd - x\<bar> \<le> 10 powi (- rd) / 2" by (rule py_round_err)
  have "\<bar>sum_list (map (\<lambda>e. py_round e rd) (x # xs)) - sum_list (x # xs)\<bar>
      \<le> \<bar>py_round x rd - x\<bar> + \<bar>sum_list (map (\<lambda>e. py_round e rd) xs) - sum_list xs\<bar>"
    by simp
  also have "\<dots> \<le> 10 powi (- rd) / 2 + real (length xs) * (10 powi (- rd) / 2)"
    using e Cons.IH by linarith
  also have "\<dots> = real (length (x # xs)) * (10 powi (- rd) / 2)"
    by (simp add: algebra_simps)
  finally show ?case .
qed

lemma period_equity_sum:
  assumes pd: "period m mc rd s = Inr s'" and len: "length (cum_equity s) = length mc"
  obtains paid where
    "sum_list (cum_equity s') = sum_list (cum_equity s) + paid"
    "length (cum_equity s') = length mc"
    "balance s' = balance s - paid"
    "rows s' = rows s @ [make_row rd (pmt_no s + 1) paid (balance s * m) (balance s') (cum_equity s')]"
proof -
  from pd obtain ip pp paid where
    ip: "interest_parts mc (balance s * m) = Inr ip"
    and tr: "trim (balance s) (principal_parts mc ip) = Inr (pp, paid)"
    and b': "balance s' = balance s - paid"
    and c': "cum_equity s' = map (\<lambda>(e, p). e + p) (zip (cum_equity s) pp)"
    and r': "rows s' = rows s @ [make_row rd (pmt_no s + 1) paid (balance s * m) (balance s') (cum_equity s')]"
    by (rule period_Inr)
  have lpp: "length pp = length mc"
    using trim_sum(3)[OF tr] principal_parts_length[OF ip] by simp
  have "sum_list (cum_equity s') = sum_list (cum_equity s) + paid"
    unfolding c' using sum_list_zip_add[of "cum_equity s" pp] len lpp trim_sum(1)[OF tr] by simp
  moreover have "length (cum_equity s') = length mc" unfolding c' using len lpp by simp
  ultimately show ?thesis using that b' r' by blast
qed

lemma conserved_loop:
  assumes run: "amort_loop m mc rd (init_state loan ds) = Some (Inr sched)"
    and len: "length ds = length mc"
  shows "\<forall>k<length sched.
      \<bar>sum_list (equity (sched ! k))
         - (sum_list ds + sum_list (map principal_paid (take (Suc k) sched)))\<bar>
        \<le> real (length mc + k + 1) * (10 powi (- rd) / 2)"
proof -
  let ?h = "(10::real) powi (- rd) / 2"
  define conserved where "conserved = (\<lambda>(ds::real list) (n::nat) (rd::int) (rs::payment_row list).
     (\<forall>k<length rs.
        \<bar>sum_list (equity (rs ! k)) - (sum_list ds + sum_list (map principal_paid (take (Suc k) rs)))\<bar>
          \<le> real (n + k + 1) * (10 powi (- rd) / 2)))"
  define I where "I = (\<lambda>s::loop_state. length (cum_equity s) = length mc \<and>
      \<bar>sum_list (cum_equity s) - sum_list ds - sum_list (map principal_paid (rows s))\<bar>
        \<le> real (length (rows s)) * ?h \<and>
      conserved ds (length mc) rd (rows s))"
  have init: "I (init_state loan ds)"
    unfolding I_def init_state_def conserved_def using len by simp
  have step: "I t'" if It: "I t" and pd: "period m mc rd t = Inr t'" for t t'
  proof -
    from It have l: "length (cum_equity t) = length mc"
      and acc: "\<bar>sum_list (cum_equity t) - sum_list ds - sum_list (map principal_paid (rows t))\<bar>
        \<le> real (length (rows t)) * ?h"
      and old: "conserved ds (length mc) rd (rows t)"
      unfolding I_def by auto
    from pd l obtain paid where
      sm: "sum_list (cum_equity t') = sum_list (cum_equity t) + paid"
      and l': "length (cum_equity t') = length mc"
      and r0: "rows t' = rows t @ [make_row rd (pmt_no t + 1) paid (balance t * m) (balance t') (cum_equity t')]"
      by (rule period_equity_sum)
    define row where "row = make_row rd (pmt_no t + 1) paid (balance t * m) (balance t') (cum_equity t')"
    have r': "rows t' = rows t @ [row]" using r0 unfolding row_def .
    have pr: "principal_paid row = py_round paid rd" by (simp add: row_def make_row_def)
    have er: "equity row = map (\<lambda>e. py_round e rd) (cum_equity t')" by (simp add: row_def make_row_def)
    have e1: "\<bar>py_round paid rd - paid\<bar> \<le> ?h" by (rule py_round_err)
    have sp: "sum_list (map principal_paid (rows t')) = sum_list (map principal_paid (rows t)) + py_round paid rd"
      unfolding r' by (simp add: pr)
    have "\<bar>sum_list (cum_equity t') - sum_list ds - sum_list (map principal_paid (rows t'))\<bar>
        \<le> \<bar>sum_list (cum_equity t) - sum_list ds - sum_list (map principal_paid (rows t))\<bar>
          + \<bar>py_round paid rd - paid\<bar>"
      unfolding sp sm by linarith
    also have "\<dots> \<le> real (length (rows t)) * ?h + ?h" using acc e1 by linarith
    also have "\<dots> = real (length (rows t')) * ?h" unfolding r' by (simp add: algebra_simps)
    finally have acc': "\<bar>sum_list (cum_equity t') - sum_list ds - sum_list (map principal_paid (rows t'))\<bar>
        \<le> real (length (rows t')) * ?h" .
    have e2: "\<bar>sum_list (equity row) - sum_list (cum_equity t')\<bar> \<le> real (length mc) * ?h"
      unfolding er using sum_round_err[of rd "cum_equity t'"] l' by simp
    have new: "\<bar>sum_list (equity row) - (sum_list ds + sum_list (map principal_paid (rows t')))\<bar>
        \<le> real (length mc + length (rows t) + 1) * ?h"
    proof -
      have "\<bar>sum_list (equity row) - (sum_list ds + sum_list (map principal_paid (rows t')))\<bar>
          \<le> \<bar>sum_list (equity row) - sum_list (cum_equity t')\<bar>
            + \<bar>sum_list (cum_equity t') - sum_list ds - sum_list (map principal_paid (rows t'))\<bar>"
        by linarith
      also have "\<dots> \<le> real (length mc) * ?h + real (length (rows t')) * ?h"
        using e2 acc' by linarith
      also have "\<dots> = real (length mc + length (rows t) + 1) * ?h"
        unfolding r' by (simp add: algebra_simps)
      finally show ?thesis .
    qed
    have "conserved ds (length mc) rd (rows t')"
      unfolding conserved_def
    proof (intro allI impI)
      fix k assume k: "k < length (rows t')"
      show "\<bar>sum_list (equity (rows t' ! k)) - (sum_list ds + sum_list (map principal_paid (take (Suc k) (rows t'))))\<bar>
          \<le> real (length mc + k + 1) * ?h"
      proof (cases "k < length (rows t)")
        case True
        then have "rows t' ! k = rows t ! k" "take (Suc k) (rows t') = take (Suc k) (rows t)"
          unfolding r' by (simp_all add: nth_append)
        then show ?thesis using old True unfolding conserved_def by simp
      next
        case False
        then have keq: "k = length (rows t)" using k unfolding r' by simp
        then have "rows t' ! k = row" "take (Suc k) (rows t') = rows t'"
          unfolding r' by simp_all
        then show ?thesis using new keq by simp
      qed
    qed
    then show ?thesis unfolding I_def using l' acc' by simp
  qed
  from amort_loop_exit[of m mc rd "init_state loan ds" sched I, OF run init] step
  obtain t where "I t" and "rows t = sched" by blast
  then show ?thesis unfolding I_def conserved_def by auto
qed

lemma rhe_small: "0 \<le> x \<Longrightarrow> x < 1 / 2 \<Longrightarrow> round_half_even x = 0"
proof -
  assume a: "0 \<le> x" "x < 1 / 2"
  then have "\<lfloor>x\<rfloor> = 0" by (simp add: floor_eq_iff)
  then show ?thesis using a unfolding round_half_even_def Let_def by simp
qed

lemma py_round_small:
  assumes "0 \<le> b" and "b \<le> eps" and "rd \<le> 5"
  shows "py_round b rd = 0"
proof -
  have "(10::real) powi rd \<le> 10 powi 5" using assms(3) by (intro power_int_increasing) simp_all
  then have p: "(10::real) powi rd \<le> 10 ^ 5" by simp
  have p0: "0 < (10::real) powi rd" by (rule pow10_pos)
  have "b * 10 powi rd \<le> eps * 10 ^ 5"
    using assms(1,2) p p0 by (intro mult_mono) (simp_all add: eps_def)
  then have "b * 10 powi rd < 1 / 2" unfolding eps_def by simp
  moreover have "0 \<le> b * 10 powi rd" using assms(1) p0 by simp
  ultimately have "round_half_even (b * 10 powi rd) = 0" by (intro rhe_small)
  then show ?thesis unfolding py_round_def by simp
qed

lemma period_balance:
  assumes pd: "period m mc rd s = Inr s'" and g: "eps < balance s"
  obtains paid where "0 \<le> paid" "paid \<le> balance s" "balance s' = balance s - paid"
    "rows s' = rows s @ [make_row rd (pmt_no s + 1) paid (balance s * m) (balance s') (cum_equity s')]"
proof -
  from pd obtain ip pp paid where
    chk: "\<not> sum_list mc < balance s * m"
    and ip: "interest_parts mc (balance s * m) = Inr ip"
    and tr: "trim (balance s) (principal_parts mc ip) = Inr (pp, paid)"
    and b': "balance s' = balance s - paid"
    and r': "rows s' = rows s @ [make_row rd (pmt_no s + 1) paid (balance s * m) (balance s') (cum_equity s')]"
    by (rule period_Inr)
  have "0 \<le> balance s" using g unfolding eps_def by simp
  then have "0 \<le> paid" using period_paid[OF ip tr chk] by simp
  moreover have "paid \<le> balance s" using trim_sum(2)[OF tr] .
  ultimately show ?thesis using that b' r' by blast
qed

lemma payoff_loop:
  assumes run: "amort_loop m mc rd (init_state loan ds) = Some (Inr sched)"
  shows "(\<forall>k. Suc k < length sched \<longrightarrow>
            loan_balance (sched ! Suc k) \<le> loan_balance (sched ! k) \<and>
            (\<exists>b. eps < b \<and> loan_balance (sched ! k) = py_round b rd)) \<and>
         (\<forall>k<length sched. 0 \<le> loan_balance (sched ! k)) \<and>
         (sched \<noteq> [] \<longrightarrow> (\<exists>b. 0 \<le> b \<and> b \<le> eps \<and> loan_balance (last sched) = py_round b rd))"
proof -
  define I where "I = (\<lambda>s::loop_state.
      (rows s \<noteq> [] \<longrightarrow> 0 \<le> balance s \<and> loan_balance (last (rows s)) = py_round (balance s) rd) \<and>
      (\<forall>k. Suc k < length (rows s) \<longrightarrow>
            loan_balance (rows s ! Suc k) \<le> loan_balance (rows s ! k) \<and>
            (\<exists>b. eps < b \<and> loan_balance (rows s ! k) = py_round b rd)) \<and>
      (\<forall>k<length (rows s). 0 \<le> loan_balance (rows s ! k)))"
  have init: "I (init_state loan ds)" unfolding I_def init_state_def by simp
  have step: "I t'" if It: "I t" and g: "eps < balance t" and pd: "period m mc rd t = Inr t'" for t t'
  proof -
    from pd g obtain paid where p0: "0 \<le> paid" and p1: "paid \<le> balance t"
      and b': "balance t' = balance t - paid"
      and r0: "rows t' = rows t @ [make_row rd (pmt_no t + 1) paid (balance t * m) (balance t') (cum_equity t')]"
      by (rule period_balance)
    define row where "row = make_row rd (pmt_no t + 1) paid (balance t * m) (balance t') (cum_equity t')"
    have r': "rows t' = rows t @ [row]" using r0 unfolding row_def .
    have lb: "loan_balance row = py_round (balance t') rd" by (simp add: row_def make_row_def)
    have nn: "0 \<le> balance t'" using b' p1 by simp
    have le: "balance t' \<le> balance t" using b' p0 by simp
    have lbn: "0 \<le> loan_balance row" unfolding lb using nn by (rule py_round_nonneg)
    have 1: "rows t' \<noteq> [] \<longrightarrow> 0 \<le> balance t' \<and> loan_balance (last (rows t')) = py_round (balance t') rd"
      unfolding r' using nn lb by simp
    have 2: "loan_balance (rows t' ! Suc k) \<le> loan_balance (rows t' ! k) \<and>
            (\<exists>b. eps < b \<and> loan_balance (rows t' ! k) = py_round b rd)"
      if k: "Suc k < length (rows t')" for k
    proof (cases "Suc k < length (rows t)")
      case True
      then have "rows t' ! Suc k = rows t ! Suc k" "rows t' ! k = rows t ! k"
        unfolding r' by (simp_all add: nth_append)
      then show ?thesis using It True unfolding I_def by simp
    next
      case False
      then have keq: "Suc k = length (rows t)" using k unfolding r' by simp
      then have ne: "rows t \<noteq> []" by auto
      have a: "rows t' ! Suc k = row" unfolding r' keq by simp
      have "rows t' ! k = rows t ! k" unfolding r' using keq by (simp add: nth_append)
      also have "\<dots> = last (rows t)"
        using keq[symmetric] ne by (simp add: last_conv_nth)
      finally have b: "rows t' ! k = last (rows t)" .
      have c: "loan_balance (last (rows t)) = py_round (balance t) rd"
        using It ne unfolding I_def by simp
      have "loan_balance row \<le> loan_balance (last (rows t))"
        unfolding lb c using le by (rule py_round_mono)
      then show ?thesis unfolding a b using c g by blast
    qed
    have 3: "0 \<le> loan_balance (rows t' ! k)" if k: "k < length (rows t')" for k
    proof (cases "k < length (rows t)")
      case True
      then have "rows t' ! k = rows t ! k" unfolding r' by (simp add: nth_append)
      then show ?thesis using It True unfolding I_def by simp
    next
      case False
      then have "k = length (rows t)" using k unfolding r' by simp
      then have "rows t' ! k = row" unfolding r' by simp
      then show ?thesis using lbn by simp
    qed
    show ?thesis unfolding I_def using 1 2 3 by blast
  qed
  from amort_loop_exit[of m mc rd "init_state loan ds" sched I, OF run init] step
  obtain t where It: "I t" and ex: "\<not> eps < balance t" and rs: "rows t = sched" by blast
  have "sched \<noteq> [] \<longrightarrow> (\<exists>b. 0 \<le> b \<and> b \<le> eps \<and> loan_balance (last sched) = py_round b rd)"
  proof
    assume "sched \<noteq> []"
    then have "0 \<le> balance t \<and> loan_balance (last sched) = py_round (balance t) rd"
      using It rs unfolding I_def by simp
    moreover have "balance t \<le> eps" using ex by simp
    ultimately show "\<exists>b. 0 \<le> b \<and> b \<le> eps \<and> loan_balance (last sched) = py_round b rd" by blast
  qed
  moreover note It[unfolded I_def rs, THEN conjunct2, THEN conjunct1]
    It[unfolded I_def rs, THEN conjunct2, THEN conjunct2]
  ultimately show ?thesis by (intro conjI)
qed

lemma period_parts_nonneg:
  assumes pd: "period m mc rd s = Inr s'" and g: "eps < balance s"
    and nn: "\<forall>c\<in>set mc. 0 \<le> c"
  obtains pp paid where "length pp = length mc" "\<forall>p\<in>set pp. 0 \<le> p"
    "cum_equity s' = map (\<lambda>(e, p). e + p) (zip (cum_equity s) pp)"
    "rows s' = rows s @ [make_row rd (pmt_no s + 1) paid (balance s * m) (balance s') (cum_equity s')]"
proof -
  from pd obtain ip pp paid where
    chk: "\<not> sum_list mc < balance s * m"
    and ip: "interest_parts mc (balance s * m) = Inr ip"
    and tr: "trim (balance s) (principal_parts mc ip) = Inr (pp, paid)"
    and c': "cum_equity s' = map (\<lambda>(e, p). e + p) (zip (cum_equity s) pp)"
    and r': "rows s' = rows s @ [make_row rd (pmt_no s + 1) paid (balance s * m) (balance s') (cum_equity s')]"
    by (rule period_Inr)
  have b0: "0 \<le> balance s" using g unfolding eps_def by simp
  have "\<forall>p\<in>set (principal_parts mc ip). 0 \<le> p"
    using principal_parts_nonneg[OF ip nn chk] .
  then have "\<forall>p\<in>set pp. 0 \<le> p" using trim_nonneg[OF tr b0] by simp
  moreover have "length pp = length mc"
    using trim_sum(3)[OF tr] principal_parts_length[OF ip] by simp
  ultimately show ?thesis using that c' r' by blast
qed

lemma equity_loop:
  assumes run: "amort_loop m mc rd (init_state loan ds) = Some (Inr sched)"
    and len: "length ds = length mc"
    and nn: "\<forall>c\<in>set mc. 0 \<le> c"
  shows "(\<forall>k<length sched. length (equity (sched ! k)) = length mc) \<and>
         (\<forall>i<length mc. sched \<noteq> [] \<longrightarrow> py_round (ds ! i) rd \<le> equity (sched ! 0) ! i) \<and>
         (\<forall>k i. Suc k < length sched \<and> i < length mc \<longrightarrow>
            equity (sched ! k) ! i \<le> equity (sched ! Suc k) ! i)"
proof -
  define I where "I = (\<lambda>s::loop_state.
      length (cum_equity s) = length mc \<and>
      (\<forall>i<length mc. ds ! i \<le> cum_equity s ! i) \<and>
      (rows s \<noteq> [] \<longrightarrow> equity (last (rows s)) = map (\<lambda>e. py_round e rd) (cum_equity s)) \<and>
      (\<forall>k<length (rows s). length (equity (rows s ! k)) = length mc) \<and>
      (\<forall>i<length mc. rows s \<noteq> [] \<longrightarrow> py_round (ds ! i) rd \<le> equity (rows s ! 0) ! i) \<and>
      (\<forall>k i. Suc k < length (rows s) \<and> i < length mc \<longrightarrow>
            equity (rows s ! k) ! i \<le> equity (rows s ! Suc k) ! i))"
  have init: "I (init_state loan ds)" unfolding I_def init_state_def using len by simp
  have step: "I t'" if It: "I t" and g: "eps < balance t" and pd: "period m mc rd t = Inr t'" for t t'
  proof -
    from It have l: "length (cum_equity t) = length mc"
      and d: "\<forall>i<length mc. ds ! i \<le> cum_equity t ! i"
      and la: "rows t \<noteq> [] \<longrightarrow> equity (last (rows t)) = map (\<lambda>e. py_round e rd) (cum_equity t)"
      and ln: "\<forall>k<length (rows t). length (equity (rows t ! k)) = length mc"
      and fi: "\<forall>i<length mc. rows t \<noteq> [] \<longrightarrow> py_round (ds ! i) rd \<le> equity (rows t ! 0) ! i"
      and mo: "\<forall>k i. Suc k < length (rows t) \<and> i < length mc \<longrightarrow>
            equity (rows t ! k) ! i \<le> equity (rows t ! Suc k) ! i"
      unfolding I_def by blast+
    from pd g nn obtain pp paid where lpp: "length pp = length mc" and ppn: "\<forall>p\<in>set pp. 0 \<le> p"
      and c': "cum_equity t' = map (\<lambda>(e, p). e + p) (zip (cum_equity t) pp)"
      and r0: "rows t' = rows t @ [make_row rd (pmt_no t + 1) paid (balance t * m) (balance t') (cum_equity t')]"
      by (rule period_parts_nonneg)
    define row where "row = make_row rd (pmt_no t + 1) paid (balance t * m) (balance t') (cum_equity t')"
    have r': "rows t' = rows t @ [row]" using r0 unfolding row_def .
    have er: "equity row = map (\<lambda>e. py_round e rd) (cum_equity t')" by (simp add: row_def make_row_def)
    have l': "length (cum_equity t') = length mc" unfolding c' using l lpp by simp
    have grow: "cum_equity t ! i \<le> cum_equity t' ! i" if i: "i < length mc" for i
    proof -
      have "0 \<le> pp ! i" using ppn i lpp by simp
      moreover have "cum_equity t' ! i = cum_equity t ! i + pp ! i"
        unfolding c' using i l lpp by simp
      ultimately show ?thesis by simp
    qed
    have d': "\<forall>i<length mc. ds ! i \<le> cum_equity t' ! i"
      using d grow by (meson order_trans)
    have eri: "equity row ! i = py_round (cum_equity t' ! i) rd" if "i < length mc" for i
      unfolding er using that l' by simp
    have 1: "rows t' \<noteq> [] \<longrightarrow> equity (last (rows t')) = map (\<lambda>e. py_round e rd) (cum_equity t')"
      unfolding r' using er by simp
    have 2: "\<forall>k<length (rows t'). length (equity (rows t' ! k)) = length mc"
    proof (intro allI impI)
      fix k assume k: "k < length (rows t')"
      show "length (equity (rows t' ! k)) = length mc"
      proof (cases "k < length (rows t)")
        case True
        then have "rows t' ! k = rows t ! k" unfolding r' by (simp add: nth_append)
        then show ?thesis using ln True by simp
      next
        case False
        then have "k = length (rows t)" using k unfolding r' by simp
        then have "rows t' ! k = row" unfolding r' by simp
        then show ?thesis using er l' by simp
      qed
    qed
    have 3: "\<forall>i<length mc. rows t' \<noteq> [] \<longrightarrow> py_round (ds ! i) rd \<le> equity (rows t' ! 0) ! i"
    proof (intro allI impI)
      fix i assume i: "i < length mc"
      show "py_round (ds ! i) rd \<le> equity (rows t' ! 0) ! i"
      proof (cases "rows t = []")
        case True
        then have "rows t' ! 0 = row" unfolding r' by simp
        moreover have "py_round (ds ! i) rd \<le> py_round (cum_equity t' ! i) rd"
          using d' i by (intro py_round_mono) simp
        ultimately show ?thesis using eri[OF i] by simp
      next
        case False
        then have "rows t' ! 0 = rows t ! 0" unfolding r' by (simp add: nth_append)
        then show ?thesis using fi i False by simp
      qed
    qed
    have 4: "\<forall>k i. Suc k < length (rows t') \<and> i < length mc \<longrightarrow>
            equity (rows t' ! k) ! i \<le> equity (rows t' ! Suc k) ! i"
    proof (intro allI impI)
      fix k i assume h: "Suc k < length (rows t') \<and> i < length mc"
      then have i: "i < length mc" by simp
      show "equity (rows t' ! k) ! i \<le> equity (rows t' ! Suc k) ! i"
      proof (cases "Suc k < length (rows t)")
        case True
        then have "rows t' ! Suc k = rows t ! Suc k" "rows t' ! k = rows t ! k"
          unfolding r' by (simp_all add: nth_append)
        then show ?thesis using mo True i by simp
      next
        case False
        then have keq: "Suc k = length (rows t)" using h unfolding r' by simp
        then have ne: "rows t \<noteq> []" by auto
        have a: "rows t' ! Suc k = row" unfolding r' keq by simp
        have "rows t' ! k = rows t ! k" unfolding r' using keq by (simp add: nth_append)
        also have "\<dots> = last (rows t)"
          using keq[symmetric] ne by (simp add: last_conv_nth)
        finally have b: "rows t' ! k = last (rows t)" .
        have "equity (last (rows t)) ! i = py_round (cum_equity t ! i) rd"
          using la ne i l by simp
        moreover have "py_round (cum_equity t ! i) rd \<le> py_round (cum_equity t' ! i) rd"
          using grow[OF i] by (rule py_round_mono)
        ultimately show ?thesis unfolding a b using eri[OF i] by simp
      qed
    qed
    show ?thesis unfolding I_def using l' d' 1 2 3 4 by (intro conjI)
  qed
  from amort_loop_exit[of m mc rd "init_state loan ds" sched I, OF run init] step
  obtain t where It: "I t" and rs: "rows t = sched" by blast
  note J = It[unfolded I_def rs]
  show ?thesis
    using J[THEN conjunct2, THEN conjunct2, THEN conjunct2, THEN conjunct1]
      J[THEN conjunct2, THEN conjunct2, THEN conjunct2, THEN conjunct2, THEN conjunct1]
      J[THEN conjunct2, THEN conjunct2, THEN conjunct2, THEN conjunct2, THEN conjunct2]
    by (intro conjI)
qed

lemma numbering_loop:
  assumes run: "amort_loop m mc rd (init_state loan ds) = Some (Inr sched)"
  shows "\<forall>k<length sched. payment_no (sched ! k) = int k + 1"
proof -
  define I where "I = (\<lambda>s::loop_state.
      pmt_no s = int (length (rows s)) \<and>
      (\<forall>k<length (rows s). payment_no (rows s ! k) = int k + 1))"
  have init: "I (init_state loan ds)" unfolding I_def init_state_def by simp
  have step: "I t'" if It: "I t" and pd: "period m mc rd t = Inr t'" for t t'
  proof -
    from pd obtain paid where p': "pmt_no t' = pmt_no t + 1"
      and r0: "rows t' = rows t @ [make_row rd (pmt_no t + 1) paid (balance t * m) (balance t') (cum_equity t')]"
      by (rule period_Inr)
    define row where "row = make_row rd (pmt_no t + 1) paid (balance t * m) (balance t') (cum_equity t')"
    have r': "rows t' = rows t @ [row]" using r0 unfolding row_def .
    have pr: "payment_no row = int (length (rows t)) + 1"
      using It unfolding I_def row_def make_row_def by simp
    have "payment_no (rows t' ! k) = int k + 1" if k: "k < length (rows t')" for k
    proof (cases "k < length (rows t)")
      case True
      then have "rows t' ! k = rows t ! k" unfolding r' by (simp add: nth_append)
      then show ?thesis using It True unfolding I_def by simp
    next
      case False
      then have "k = length (rows t)" using k unfolding r' by simp
      then show ?thesis unfolding r' using pr by simp
    qed
    moreover have "pmt_no t' = int (length (rows t'))"
      using It p' unfolding I_def r' by simp
    ultimately show ?thesis unfolding I_def by simp
  qed
  from amort_loop_exit[of m mc rd "init_state loan ds" sched I, OF run init] step
  obtain t where "I t" and "rows t = sched" by blast
  then show ?thesis unfolding I_def by auto
qed

lemma nonempty_loop:
  assumes run: "amort_loop m mc rd (init_state loan ds) = Some (Inr sched)"
    and g: "eps < loan"
  shows "sched \<noteq> []"
proof -
  let ?s = "init_state loan ds"
  have g': "eps < balance ?s" using g unfolding init_state_def by simp
  from run g' obtain s1 where pd: "period m mc rd ?s = Inr s1"
    and run1: "amort_loop m mc rd s1 = Some (Inr sched)"
    by (subst (asm) amort_loop.simps) (auto split: sum.splits)
  from pd obtain paid where
    "rows s1 = rows ?s @ [make_row rd (pmt_no ?s + 1) paid (balance ?s * m) (balance s1) (cum_equity s1)]"
    by (rule period_Inr)
  then have init: "rows s1 \<noteq> []" by simp
  have step: "rows t' \<noteq> []" if "rows t \<noteq> []" and pd': "period m mc rd t = Inr t'" for t t'
  proof -
    from pd' obtain paid' where
      "rows t' = rows t @ [make_row rd (pmt_no t + 1) paid' (balance t * m) (balance t') (cum_equity t')]"
      by (rule period_Inr)
    then show ?thesis by simp
  qed
  from amort_loop_exit[of m mc rd s1 sched "\<lambda>s. rows s \<noteq> []", OF run1 init] step
  show ?thesis by blast
qed

section \<open>The yearly roll-up\<close>

text \<open>
  On rows numbered 1, 2, ... the grouping yields the years 1, 2, ... and picks row
  \<open>12 * j + 11\<close>, or the last row, for year \<open>j + 1\<close>.
\<close>

lemma last_filter_nth:
  assumes i: "i < length xs" and P: "P (xs ! i)"
    and after: "\<forall>j. i < j \<and> j < length xs \<longrightarrow> \<not> P (xs ! j)"
  shows "last (filter P xs) = xs ! i"
proof -
  have xs: "xs = take i xs @ xs ! i # drop (Suc i) xs" using i by (rule id_take_nth_drop)
  have "filter P (drop (Suc i) xs) = []"
  proof -
    have "\<not> P x" if "x \<in> set (drop (Suc i) xs)" for x
    proof -
      from that obtain j where j: "j < length (drop (Suc i) xs)" and x: "x = drop (Suc i) xs ! j"
        by (auto simp: in_set_conv_nth)
      then have "x = xs ! (Suc i + j)" "Suc i + j < length xs" by simp_all
      then show ?thesis using after by simp
    qed
    then show ?thesis by (simp add: filter_empty_conv)
  qed
  then have "filter P xs = filter P (take i xs) @ [xs ! i]"
    using P by (subst xs) simp
  then show ?thesis by simp
qed

lemma years_sorted:
  "sorted (map (\<lambda>j. int j + 1) [0..<m]) \<and> distinct (map (\<lambda>j. int j + 1) [0..<m])"
proof -
  have "sorted_wrt (\<lambda>x y. int x + 1 < int y + 1) [0..<m]"
    by (rule sorted_wrt_mono_rel[OF _ sorted_wrt_upt]) simp
  then have "sorted_wrt (<) (map (\<lambda>j. int j + 1) [0..<m])"
    by (simp only: sorted_wrt_map)
  then show ?thesis by (simp only: strict_sorted_iff)
qed

lemma ceil_div_12: "int ((n + 11) div 12) = \<lceil>real n / 12\<rceil>"
proof -
  have "\<lceil>real n / 12\<rceil> = - (- int n div 12)"
    using ceiling_divide_eq_div[of "int n" 12] by simp
  also have "\<dots> = int ((n + 11) div 12)" by (simp add: zdiv_int)
  finally show ?thesis by simp
qed

lemma groupby_last_rows:
  assumes pn: "\<forall>k<length rs. payment_no (rs ! k) = int k + 1"
  shows "groupby_last rs =
           map (\<lambda>j. (int j + 1, rs ! min (12 * j + 11) (length rs - 1)))
             [0..<(length rs + 11) div 12]"
proof -
  let ?n = "length rs"
  let ?m = "(?n + 11) div 12"
  have yr: "year_of (rs ! k) = int (k div 12) + 1" if "k < ?n" for k
    using pn that unfolding year_of_def by (simp add: zdiv_int)
  have "set (map year_of rs) = (\<lambda>j. int j + 1) ` {0..<?m}"
  proof (intro equalityI subsetI)
    fix y assume "y \<in> set (map year_of rs)"
    then obtain k where k: "k < ?n" and y: "y = year_of (rs ! k)"
      by (auto simp: in_set_conv_nth)
    have "k div 12 < ?m" using k by arith
    then show "y \<in> (\<lambda>j. int j + 1) ` {0..<?m}" unfolding y yr[OF k] by simp
  next
    fix y assume "y \<in> (\<lambda>j. int j + 1) ` {0..<?m}"
    then obtain j where j: "j < ?m" and y: "y = int j + 1" by auto
    have k: "12 * j < ?n" using j by arith
    have "year_of (rs ! (12 * j)) = y" unfolding y yr[OF k] by simp
    moreover have "rs ! (12 * j) \<in> set rs" using k by simp
    ultimately show "y \<in> set (map year_of rs)" by force
  qed
  then have "set (sort (remdups (map year_of rs))) = set (map (\<lambda>j. int j + 1) [0..<?m])"
    by simp
  moreover have "sorted (sort (remdups (map year_of rs)))" "distinct (sort (remdups (map year_of rs)))"
    by simp_all
  ultimately have keys: "sort (remdups (map year_of rs)) = map (\<lambda>j. int j + 1) [0..<?m]"
    using years_sorted[of ?m] by (intro sorted_distinct_set_unique) simp_all
  have pick: "last (filter (\<lambda>r. year_of r = int j + 1) rs) = rs ! min (12 * j + 11) (?n - 1)"
    if j: "j < ?m" for j
  proof (rule last_filter_nth)
    let ?i = "min (12 * j + 11) (?n - 1)"
    show i: "?i < ?n" using j by arith
    have "?i div 12 = j" using j by arith
    then show "year_of (rs ! ?i) = int j + 1" using yr[OF i] by simp
    show "\<forall>k. ?i < k \<and> k < ?n \<longrightarrow> \<not> year_of (rs ! k) = int j + 1"
    proof (intro allI impI)
      fix k assume h: "?i < k \<and> k < ?n"
      then have "k div 12 \<noteq> j" by arith
      then show "\<not> year_of (rs ! k) = int j + 1" using yr[of k] h by simp
    qed
  qed
  show ?thesis
    unfolding groupby_last_def keys using pick by (simp add: comp_def)
qed

lemma sum_list_div: "sum_list (map (\<lambda>e. e / t) xs) = sum_list xs / (t :: real)"
  by (induction xs) (simp_all add: add_divide_distrib)

lemma member_le_sum_list_real:
  assumes "\<forall>x\<in>set xs. 0 \<le> (x :: real)" and "x \<in> set xs"
  shows "x \<le> sum_list xs"
  using assms
proof (induction xs)
  case Nil
  then show ?case by simp
next
  case (Cons a xs)
  have "0 \<le> sum_list xs" using Cons.prems(1) by (simp add: sum_list_nonneg)
  moreover have "0 \<le> a" using Cons.prems(1) by simp
  ultimately show ?case using Cons by auto
qed

lemma groupby_last_mem:
  assumes "(y, r) \<in> set (groupby_last rs)"
  shows "r \<in> set rs"
proof -
  from assms have y: "y \<in> set (map year_of rs)"
    and r: "r = last (filter (\<lambda>r. year_of r = y) rs)"
    unfolding groupby_last_def by auto
  from y have "filter (\<lambda>r. year_of r = y) rs \<noteq> []"
    by (auto simp: filter_empty_conv)
  then have "r \<in> set (filter (\<lambda>r. year_of r = y) rs)" unfolding r by (rule last_in_set)
  then show ?thesis by simp
qed

lemma make_year_row_shares:
  "total_equity (make_year_row (y, r)) = sum_list (equity r)"
  "year_equity (make_year_row (y, r)) = equity r"
  "share (make_year_row (y, r)) = map (share_of (sum_list (equity r))) (equity r)"
  by (simp_all add: make_year_row_def Let_def)

lemma shares_sum:
  assumes "t \<noteq> 0" and "t = sum_list xs"
  shows "sum_list (map the (map (share_of t) xs)) = 1"
proof -
  have "map the (map (share_of t) xs) = map (\<lambda>e. e / t) xs"
    using assms(1) by (simp add: share_of_def)
  then show ?thesis using assms by (simp only: sum_list_div) simp
qed

lemma equity_rows_nonneg:
  assumes len: "\<forall>k<length sched. length (equity (sched ! k)) = n"
    and first: "\<forall>i<n. sched \<noteq> [] \<longrightarrow> py_round (ds ! i) rd \<le> equity (sched ! 0) ! i"
    and mono: "\<forall>k i. Suc k < length sched \<and> i < n \<longrightarrow>
            equity (sched ! k) ! i \<le> equity (sched ! Suc k) ! i"
    and ds: "\<forall>d\<in>set ds. 0 \<le> d" and dl: "length ds = n"
    and r: "r \<in> set sched"
  shows "\<forall>e\<in>set (equity r). 0 \<le> e"
proof -
  have base: "0 \<le> equity (sched ! k) ! i" if "k < length sched" "i < n" for k i
    using that
  proof (induction k)
    case 0
    then have "sched \<noteq> []" by auto
    then have "py_round (ds ! i) rd \<le> equity (sched ! 0) ! i" using first 0 by simp
    moreover have "0 \<le> py_round (ds ! i) rd"
      using ds dl 0 by (intro py_round_nonneg) simp
    ultimately show ?case by simp
  next
    case (Suc k)
    then have "0 \<le> equity (sched ! k) ! i" by simp
    moreover have "equity (sched ! k) ! i \<le> equity (sched ! Suc k) ! i"
      using mono Suc.prems by simp
    ultimately show ?case by simp
  qed
  from r obtain k where k: "k < length sched" and rk: "r = sched ! k"
    by (auto simp: in_set_conv_nth)
  show ?thesis
  proof
    fix e assume "e \<in> set (equity r)"
    then obtain i where "i < length (equity r)" and "e = equity r ! i"
      by (auto simp: in_set_conv_nth)
    then show "0 \<le> e" using base[of k i] k len unfolding rk by simp
  qed
qed

section \<open>Rounding to double precision\<close>

































section \<open>Claims about one period\<close>













section \<open>Claims about errors and termination\<close>







text \<open>
  Termination off the interest-only boundary, in exact arithmetic only. With matching
  lengths, a positive rate, a term of at least a year and contributions that do not add up
  to exactly the first period's interest \<open>loan_amount * (annual_rate / 12)\<close>, the exact
  reading of the call ends: it raises the \<^verbatim>\<open>ValueError\<close> of line 58 or it returns the two
  tables; and in every period whose contributions strictly exceed the interest due the
  exact balance strictly decreases. This says nothing of the float loop off the boundary:
  there a contribution one unit in the last place above the interest can leave a principal
  that is lost when it is subtracted from the balance, and the loop stalls all the same.
\<close>

theorem termination_off_boundary:
  assumes len: "length downpayments = length monthly_contrib"
    and rate: "0 < annual_rate" and years: "1 \<le> term_years"
    and off: "sum_list monthly_contrib \<noteq> loan_amount * (annual_rate / 12)"
  shows "(amortization_shared loan_amount annual_rate term_years monthly_contrib downpayments
            rounding = Some (Inl (ValueError insufficient_msg)) \<or>
          (\<exists>sched yearly.
             amortization_shared loan_amount annual_rate term_years monthly_contrib downpayments
               rounding = Some (Inr (sched, yearly)))) \<and>
         (\<forall>s s'. eps < balance s \<and> balance s * (annual_rate / 12) < sum_list monthly_contrib \<and>
                 period (annual_rate / 12) monthly_contrib rounding s = Inr s' \<longrightarrow>
                 balance s' < balance s)"
proof (intro conjI allI impI)
  let ?m = "annual_rate / 12"
  let ?s = "init_state loan_amount downpayments"
  obtain sp where sp: "sched_payment loan_amount ?m term_years = Inr sp"
    using sched_payment_defined[OF rate years] by blast
  note wrap = amortization_shared_loop[OF len sp, of rounding]
  show "amortization_shared loan_amount annual_rate term_years monthly_contrib downpayments
            rounding = Some (Inl (ValueError insufficient_msg)) \<or>
          (\<exists>sched yearly.
             amortization_shared loan_amount annual_rate term_years monthly_contrib downpayments
               rounding = Some (Inr (sched, yearly)))"
  proof (cases "eps < loan_amount")
    case False
    then have "amort_loop ?m monthly_contrib rounding ?s = Some (Inr [])"
      by (subst amort_loop.simps) (simp add: init_state_def)
    then show ?thesis using wrap by simp
  next
    case True
    show ?thesis
    proof (cases "sum_list monthly_contrib < loan_amount * ?m")
      case True
      have "period ?m monthly_contrib rounding ?s = Inl (ValueError insufficient_msg)"
        using True unfolding period_def Let_def init_state_def by simp
      then have "amort_loop ?m monthly_contrib rounding ?s = Some (Inl (ValueError insufficient_msg))"
        using \<open>eps < loan_amount\<close> by (subst amort_loop.simps) (simp add: init_state_def)
      then show ?thesis using wrap by simp
    next
      case False
      let ?d = "sum_list monthly_contrib - loan_amount * ?m"
      have d: "0 < ?d" using False off by simp
      have m: "0 < ?m" using rate by simp
      have le: "balance ?s \<le> loan_amount" by (simp add: init_state_def)
      obtain n :: nat where n: "loan_amount / ?d < real n"
        using reals_Archimedean2 by blast
      then have "loan_amount < real n * ?d" using d by (simp add: pos_divide_less_eq)
      then have bn: "balance ?s \<le> real n * ?d" by (simp add: init_state_def)
      from loop_terminates[OF m d le bn, of rounding]
      obtain rs where "amort_loop ?m monthly_contrib rounding ?s = Some (Inr rs)" by blast
      then show ?thesis using wrap by simp
    qed
  qed
next
  fix s s'
  assume h: "eps < balance s \<and> balance s * (annual_rate / 12) < sum_list monthly_contrib \<and>
      period (annual_rate / 12) monthly_contrib rounding s = Inr s'"
  then have pd: "period (annual_rate / 12) monthly_contrib rounding s = Inr s'" by simp
  from pd obtain ip pp paid where
    ip: "interest_parts monthly_contrib (balance s * (annual_rate / 12)) = Inr ip"
    and tr: "trim (balance s) (principal_parts monthly_contrib ip) = Inr (pp, paid)"
    and b': "balance s' = balance s - paid"
    by (rule period_Inr)
  have bpos: "0 < balance s" using h unfolding eps_def by simp
  have "monthly_contrib \<noteq> []"
  proof
    assume "monthly_contrib = []"
    then have "balance s * (annual_rate / 12) < 0" using h by simp
    then show False using bpos rate by (simp add: mult_less_0_iff)
  qed
  then have "sum_list (principal_parts monthly_contrib ip)
      = sum_list monthly_contrib - balance s * (annual_rate / 12)"
    using principal_parts_sum[OF ip] by simp
  then have "0 < sum_list (principal_parts monthly_contrib ip)" using h by simp
  then have "0 < paid" using trim_cases[OF tr] bpos by auto
  then show "balance s' < balance s" using b' by simp
qed

theorem termination_off_boundary_witness:
  "(amortization_shared 100 (12 / 100) 1 [30, 30] [5, 0] 2 = Some (Inl (ValueError insufficient_msg)) \<or>
    (\<exists>sched yearly. amortization_shared 100 (12 / 100) 1 [30, 30] [5, 0] 2 = Some (Inr (sched, yearly)))) \<and>
   (\<exists>s'. period ((12 / 100) / 12) [30, 30] 2 (init_state 100 [5, 0]) = Inr s' \<and>
      balance s' < balance (init_state 100 [5, 0]))"
proof -
  let ?s = "init_state 100 [5, 0]"
  have len: "length [5, 0 :: real] = length [30, 30 :: real]" by simp
  have rate: "(0::real) < 12 / 100" by simp
  have years: "(1::int) \<le> 1" by simp
  have off: "sum_list [30, 30] \<noteq> 100 * ((12 / 100) / 12 :: real)" by simp
  note T = termination_off_boundary[OF len rate years off, of 2]
  have pd: "period ((12 / 100) / 12) [30, 30] 2 ?s =
      Inr \<lparr>balance = 41, cum_equity = [69 / 2, 59 / 2], pmt_no = 1,
           rows = [make_row 2 1 59 1 41 [69 / 2, 59 / 2]]\<rparr>"
    by (simp add: period_def init_state_def interest_parts_def principal_parts_def trim_def Let_def)
  have g: "eps < balance ?s \<and> balance ?s * ((12 / 100) / 12) < sum_list [30, 30]"
    by (simp add: eps_def init_state_def)
  from T g pd have "balance \<lparr>balance = 41, cum_equity = [69 / 2, 59 / 2], pmt_no = 1,
      rows = [make_row 2 1 59 1 41 [69 / 2, 59 / 2]]\<rparr> < balance ?s"
    by blast
  with pd have "\<exists>s'. period ((12 / 100) / 12) [30, 30] 2 ?s = Inr s' \<and> balance s' < balance ?s"
    by blast
  with T show ?thesis by blast
qed

text \<open>
  Claim C3 (termination) promises that the loop ends on every input that meets the
  preconditions. The guard of line 57 misses the boundary case: a loan of 1024 at an annual
  rate of 0.75 accrues exactly 64 of interest per month, contributions of 64 pass the check
  (\<^verbatim>\<open>64 < 64\<close> is false), the principal paid is 0 and the balance never changes. The loop does
  not end, so the call returns nothing.
\<close>

theorem boundary_loop_never_ends:
  "\<not> sum_list [64] < 1024 * ((3 / 4) / 12 :: real) \<and>
   amortization_shared 1024 (3 / 4) 1 [64] [0] 2 = None"
proof -
  have m: "(3 / 4) / 12 = (1 / 16 :: real)" by simp
  obtain sp where sp: "sched_payment 1024 ((3 / 4) / 12) 1 = Inr sp"
    using sched_payment_defined[of "3 / 4" 1 1024] by auto
  have "amort_loop ((3 / 4) / 12) [64] 2 (init_state 1024 [0]) = None"
    unfolding m by (rule loop_stalls) (simp add: init_state_def)
  then have "amortization_shared 1024 (3 / 4) 1 [64] [0] 2 = None"
    using amortization_shared_loop[OF _ sp, of "[0]" "[64]" 2] by simp
  then show ?thesis by simp
qed

section \<open>Claims about the schedule\<close>

text \<open>
  A run of two periods, used to instantiate the theorems below: a loan of 100 at 12 percent
  a year, two borrowers paying 30 a month each, down payments of 5 and 0, two decimals.
\<close>

lemma example_run:
  "amortization_shared 100 (12 / 100) 1 [30, 30] [5, 0] 2 =
     Some (Inr
       ([\<lparr>payment_no = 1, principal_paid = 59, interest_paid = 1, loan_balance = 41,
           equity = [69 / 2, 59 / 2]\<rparr>,
         \<lparr>payment_no = 2, principal_paid = 41, interest_paid = 41 / 100, loan_balance = 0,
           equity = [55, 50]\<rparr>],
        [\<lparr>year = 1, year_equity = [55, 50], year_loan_balance = 0, total_equity = 105,
           share = [Some (11 / 21), Some (10 / 21)]\<rparr>]))"
  by code_simp

text \<open>
  A run of thirteen periods, which spans two years: a loan of 1200 at 12 percent a year, one
  borrower paying 100 a month, no down payment, no decimals.
\<close>

lemmas eval_defs = period_def interest_parts_def principal_parts_def trim_def py_div_def
  make_row_def py_round_def round_half_even_def eps_def init_state_def Let_def

lemma two_year_loop:
  "amort_loop (1 / 100) [100] 0 (init_state 1200 [0]) =
     Some (Inr
        [\<lparr>payment_no = 1, principal_paid = 88, interest_paid = 12, loan_balance = 1112,
           equity = [88]\<rparr>,
         \<lparr>payment_no = 2, principal_paid = 89, interest_paid = 11, loan_balance = 1023,
           equity = [177]\<rparr>,
         \<lparr>payment_no = 3, principal_paid = 90, interest_paid = 10, loan_balance = 933,
           equity = [267]\<rparr>,
         \<lparr>payment_no = 4, principal_paid = 91, interest_paid = 9, loan_balance = 843,
           equity = [357]\<rparr>,
         \<lparr>payment_no = 5, principal_paid = 92, interest_paid = 8, loan_balance = 751,
           equity = [449]\<rparr>,
         \<lparr>payment_no = 6, principal_paid = 92, interest_paid = 8, loan_balance = 659,
           equity = [541]\<rparr>,
         \<lparr>payment_no = 7, principal_paid = 93, interest_paid = 7, loan_balance = 565,
           equity = [635]\<rparr>,
         \<lparr>payment_no = 8, principal_paid = 94, interest_paid = 6, loan_balance = 471,
           equity = [729]\<rparr>,
         \<lparr>payment_no = 9, principal_paid = 95, interest_paid = 5, loan_balance = 376,
           equity = [824]\<rparr>,
         \<lparr>payment_no = 10, principal_paid = 96, interest_paid = 4, loan_balance = 279,
           equity = [921]\<rparr>,
         \<lparr>payment_no = 11, principal_paid = 97, interest_paid = 3, loan_balance = 182,
           equity = [1018]\<rparr>,
         \<lparr>payment_no = 12, principal_paid = 98, interest_paid = 2, loan_balance = 84,
           equity = [1116]\<rparr>,
         \<lparr>payment_no = 13, principal_paid = 84, interest_paid = 1, loan_balance = 0,
           equity = [1200]\<rparr>])"
  by (simp add: amort_loop.simps eval_defs)

lemma two_year_rollup:
  "yearly_rollup
        [\<lparr>payment_no = 1, principal_paid = 88, interest_paid = 12, loan_balance = 1112,
           equity = [88]\<rparr>,
         \<lparr>payment_no = 2, principal_paid = 89, interest_paid = 11, loan_balance = 1023,
           equity = [177]\<rparr>,
         \<lparr>payment_no = 3, principal_paid = 90, interest_paid = 10, loan_balance = 933,
           equity = [267]\<rparr>,
         \<lparr>payment_no = 4, principal_paid = 91, interest_paid = 9, loan_balance = 843,
           equity = [357]\<rparr>,
         \<lparr>payment_no = 5, principal_paid = 92, interest_paid = 8, loan_balance = 751,
           equity = [449]\<rparr>,
         \<lparr>payment_no = 6, principal_paid = 92, interest_paid = 8, loan_balance = 659,
           equity = [541]\<rparr>,
         \<lparr>payment_no = 7, principal_paid = 93, interest_paid = 7, loan_balance = 565,
           equity = [635]\<rparr>,
         \<lparr>payment_no = 8, principal_paid = 94, interest_paid = 6, loan_balance = 471,
           equity = [729]\<rparr>,
         \<lparr>payment_no = 9, principal_paid = 95, interest_paid = 5, loan_balance = 376,
           equity = [824]\<rparr>,
         \<lparr>payment_no = 10, principal_paid = 96, interest_paid = 4, loan_balance = 279,
           equity = [921]\<rparr>,
         \<lparr>payment_no = 11, principal_paid = 97, interest_paid = 3, loan_balance = 182,
           equity = [1018]\<rparr>,
         \<lparr>payment_no = 12, principal_paid = 98, interest_paid = 2, loan_balance = 84,
           equity = [1116]\<rparr>,
         \<lparr>payment_no = 13, principal_paid = 84, interest_paid = 1, loan_balance = 0,
           equity = [1200]\<rparr>] =
        [\<lparr>year = 1, year_equity = [1116], year_loan_balance = 84, total_equity = 1116,
           share = [Some 1]\<rparr>,
         \<lparr>year = 2, year_equity = [1200], year_loan_balance = 0, total_equity = 1200,
           share = [Some 1]\<rparr>]"
  by (simp add: yearly_rollup_def groupby_last_def year_of_def make_year_row_def share_of_def)

lemma two_year_run:
  "amortization_shared 1200 (12 / 100) 1 [100] [0] 0 =
     Some (Inr
       ([\<lparr>payment_no = 1, principal_paid = 88, interest_paid = 12, loan_balance = 1112,
           equity = [88]\<rparr>,
         \<lparr>payment_no = 2, principal_paid = 89, interest_paid = 11, loan_balance = 1023,
           equity = [177]\<rparr>,
         \<lparr>payment_no = 3, principal_paid = 90, interest_paid = 10, loan_balance = 933,
           equity = [267]\<rparr>,
         \<lparr>payment_no = 4, principal_paid = 91, interest_paid = 9, loan_balance = 843,
           equity = [357]\<rparr>,
         \<lparr>payment_no = 5, principal_paid = 92, interest_paid = 8, loan_balance = 751,
           equity = [449]\<rparr>,
         \<lparr>payment_no = 6, principal_paid = 92, interest_paid = 8, loan_balance = 659,
           equity = [541]\<rparr>,
         \<lparr>payment_no = 7, principal_paid = 93, interest_paid = 7, loan_balance = 565,
           equity = [635]\<rparr>,
         \<lparr>payment_no = 8, principal_paid = 94, interest_paid = 6, loan_balance = 471,
           equity = [729]\<rparr>,
         \<lparr>payment_no = 9, principal_paid = 95, interest_paid = 5, loan_balance = 376,
           equity = [824]\<rparr>,
         \<lparr>payment_no = 10, principal_paid = 96, interest_paid = 4, loan_balance = 279,
           equity = [921]\<rparr>,
         \<lparr>payment_no = 11, principal_paid = 97, interest_paid = 3, loan_balance = 182,
           equity = [1018]\<rparr>,
         \<lparr>payment_no = 12, principal_paid = 98, interest_paid = 2, loan_balance = 84,
           equity = [1116]\<rparr>,
         \<lparr>payment_no = 13, principal_paid = 84, interest_paid = 1, loan_balance = 0,
           equity = [1200]\<rparr>],
        [\<lparr>year = 1, year_equity = [1116], year_loan_balance = 84, total_equity = 1116,
           share = [Some 1]\<rparr>,
         \<lparr>year = 2, year_equity = [1200], year_loan_balance = 0, total_equity = 1200,
           share = [Some 1]\<rparr>]))"
proof -
  obtain sp where sp: "sched_payment 1200 ((12 / 100) / 12) 1 = Inr sp"
    using sched_payment_defined[of "12 / 100" 1 1200] by auto
  have m: "(12 / 100) / 12 = (1 / 100 :: real)" by simp
  show ?thesis
    by (subst amortization_shared_loop[OF _ sp])
      (simp_all only: m two_year_loop two_year_rollup option.case sum.case list.size)
qed

text \<open>
  Claim C1 (conservation of equity). In every row \<open>k\<close> of a returned schedule the equity
  columns add up to the sum of the down payments plus the principal paid in the rows up to
  and including \<open>k\<close>, within the rounding tolerance: the row holds \<open>length monthly_contrib\<close>
  rounded equities and the sum runs over \<open>k + 1\<close> rounded payments, each within half a unit
  of the last rounded digit of its exact value. Before rounding the conservation is exact:
  in a period the equities gain in total what the balance loses.
\<close>

theorem conservation_of_equity:
  assumes run: "amortization_shared loan_amount annual_rate term_years monthly_contrib
      downpayments rounding = Some (Inr (sched, yearly))"
    and k: "k < length sched"
  shows "\<bar>sum_list (equity (sched ! k))
            - (sum_list downpayments + sum_list (map principal_paid (take (Suc k) sched)))\<bar>
           \<le> real (length monthly_contrib + k + 1) * (10 powi (- rounding) / 2) \<and>
         (\<forall>s s'. length (cum_equity s) = length monthly_contrib \<and>
                 period (annual_rate / 12) monthly_contrib rounding s = Inr s' \<longrightarrow>
                 sum_list (cum_equity s') - sum_list (cum_equity s) = balance s - balance s')"
proof
  show "\<bar>sum_list (equity (sched ! k))
            - (sum_list downpayments + sum_list (map principal_paid (take (Suc k) sched)))\<bar>
           \<le> real (length monthly_contrib + k + 1) * (10 powi (- rounding) / 2)"
    using conserved_loop[OF amortization_shared_Inr(2)[OF run] amortization_shared_Inr(1)[OF run]] k
    by blast
next
  show "\<forall>s s'. length (cum_equity s) = length monthly_contrib \<and>
                 period (annual_rate / 12) monthly_contrib rounding s = Inr s' \<longrightarrow>
                 sum_list (cum_equity s') - sum_list (cum_equity s) = balance s - balance s'"
  proof (intro allI impI)
    fix s s'
    assume h: "length (cum_equity s) = length monthly_contrib \<and>
                 period (annual_rate / 12) monthly_contrib rounding s = Inr s'"
    then obtain paid where "sum_list (cum_equity s') = sum_list (cum_equity s) + paid"
      and "balance s' = balance s - paid"
      using period_equity_sum[of "annual_rate / 12" monthly_contrib rounding s s'] by blast
    then show "sum_list (cum_equity s') - sum_list (cum_equity s) = balance s - balance s'"
      by simp
  qed
qed

theorem conservation_of_equity_witness:
  "(case amortization_shared 100 (12 / 100) 1 [30, 30] [5, 0] 2 of
      Some (Inr (sched, yearly)) \<Rightarrow>
        1 < length sched \<and>
        \<bar>sum_list (equity (sched ! 1))
           - (sum_list [5, 0] + sum_list (map principal_paid (take (Suc 1) sched)))\<bar>
          \<le> real (length [30, 30 :: real] + 1 + 1) * (10 powi (- 2) / 2)
    | _ \<Rightarrow> False) \<and>
   (\<exists>s'. period ((12 / 100) / 12) [30, 30] 2 (init_state 100 [5, 0]) = Inr s' \<and>
      sum_list (cum_equity s') - sum_list (cum_equity (init_state 100 [5, 0]))
        = balance (init_state 100 [5, 0]) - balance s') \<and>
   (case amortization_shared 1200 (12 / 100) 1 [100] [0] 0 of
      Some (Inr (sched, yearly)) \<Rightarrow>
        11 < length sched \<and>
        \<bar>sum_list (equity (sched ! 11))
           - (sum_list [0] + sum_list (map principal_paid (take (Suc 11) sched)))\<bar>
          \<le> real (length [100 :: real] + 11 + 1) * (10 powi (- 0) / 2)
    | _ \<Rightarrow> False)"
proof -
  let ?sched = "[\<lparr>payment_no = 1, principal_paid = 59, interest_paid = 1, loan_balance = 41,
           equity = [69 / 2, 59 / 2]\<rparr>,
         \<lparr>payment_no = 2, principal_paid = 41, interest_paid = 41 / 100, loan_balance = 0,
           equity = [55, 50]\<rparr>]"
  have k: "1 < length ?sched" by simp
  obtain sched2 yearly2 where run2: "amortization_shared 1200 (12 / 100) 1 [100] [0] 0
      = Some (Inr (sched2, yearly2))" and k2: "11 < length sched2"
    using two_year_run by simp
  have c: "(case amortization_shared 1200 (12 / 100) 1 [100] [0] 0 of
      Some (Inr (sched, yearly)) \<Rightarrow>
        11 < length sched \<and>
        \<bar>sum_list (equity (sched ! 11))
           - (sum_list [0] + sum_list (map principal_paid (take (Suc 11) sched)))\<bar>
          \<le> real (length [100 :: real] + 11 + 1) * (10 powi (- 0) / 2)
    | _ \<Rightarrow> False)"
    by (subst run2) (use conservation_of_equity[OF run2 k2, THEN conjunct1] k2 in simp)
  note T = conservation_of_equity[OF example_run k]
  have pd: "period ((12 / 100) / 12) [30, 30] 2 (init_state 100 [5, 0]) =
      Inr \<lparr>balance = 41, cum_equity = [69 / 2, 59 / 2], pmt_no = 1,
           rows = [make_row 2 1 59 1 41 [69 / 2, 59 / 2]]\<rparr>"
    by (simp add: period_def init_state_def interest_parts_def principal_parts_def trim_def Let_def)
  have l: "length (cum_equity (init_state 100 [5, 0])) = length [30, 30 :: real]"
    by (simp add: init_state_def)
  from T l pd have a: "\<exists>s'. period ((12 / 100) / 12) [30, 30] 2 (init_state 100 [5, 0]) = Inr s' \<and>
      sum_list (cum_equity s') - sum_list (cum_equity (init_state 100 [5, 0]))
        = balance (init_state 100 [5, 0]) - balance s'"
    by blast
  from T have b: "\<bar>sum_list (equity (?sched ! 1))
           - (sum_list [5, 0] + sum_list (map principal_paid (take (Suc 1) ?sched)))\<bar>
          \<le> real (length [30, 30 :: real] + 1 + 1) * (10 powi (- 2) / 2)"
    by (rule conjunct1)
  have "(case amortization_shared 100 (12 / 100) 1 [30, 30] [5, 0] 2 of
      Some (Inr (sched, yearly)) \<Rightarrow>
        1 < length sched \<and>
        \<bar>sum_list (equity (sched ! 1))
           - (sum_list [5, 0] + sum_list (map principal_paid (take (Suc 1) sched)))\<bar>
          \<le> real (length [30, 30 :: real] + 1 + 1) * (10 powi (- 2) / 2)
    | _ \<Rightarrow> False)"
    by (subst example_run) (use b k in simp)
  with a c show ?thesis by blast
qed

text \<open>
  Claim C2 (monotonic payoff), as amended. In a returned schedule the \<^verbatim>\<open>Loan Balance\<close> column
  never increases and is never negative. A row before the last one holds the rounding of a
  balance above the loop tolerance \<^verbatim>\<open>1e-6\<close>, which can round to zero, so the column need not
  be strictly positive there. The last row holds the rounding of a balance between 0 and
  \<^verbatim>\<open>1e-6\<close>, which is exactly 0 when at most five decimals are kept.
\<close>

theorem monotonic_payoff:
  assumes run: "amortization_shared loan_amount annual_rate term_years monthly_contrib
      downpayments rounding = Some (Inr (sched, yearly))"
  shows "(\<forall>k. Suc k < length sched \<longrightarrow>
            loan_balance (sched ! Suc k) \<le> loan_balance (sched ! k) \<and>
            (\<exists>b. eps < b \<and> loan_balance (sched ! k) = py_round b rounding)) \<and>
         (\<forall>k<length sched. 0 \<le> loan_balance (sched ! k)) \<and>
         (sched \<noteq> [] \<longrightarrow>
            (\<exists>b. 0 \<le> b \<and> b \<le> eps \<and> loan_balance (last sched) = py_round b rounding) \<and>
            (rounding \<le> 5 \<longrightarrow> loan_balance (last sched) = 0))"
proof -
  note L = payoff_loop[OF amortization_shared_Inr(2)[OF run]]
  have "sched \<noteq> [] \<longrightarrow>
            (\<exists>b. 0 \<le> b \<and> b \<le> eps \<and> loan_balance (last sched) = py_round b rounding) \<and>
            (rounding \<le> 5 \<longrightarrow> loan_balance (last sched) = 0)"
  proof (intro impI conjI)
    assume ne: "sched \<noteq> []"
    with L show ex: "\<exists>b. 0 \<le> b \<and> b \<le> eps \<and> loan_balance (last sched) = py_round b rounding"
      by (elim conjE) simp
    assume "rounding \<le> 5"
    with ex show "loan_balance (last sched) = 0" using py_round_small by auto
  qed
  with L[THEN conjunct1] L[THEN conjunct2, THEN conjunct1] show ?thesis by (intro conjI)
qed

theorem monotonic_payoff_witness:
  "(case amortization_shared 100 (12 / 100) 1 [30, 30] [5, 0] 2 of
      Some (Inr (sched, yearly)) \<Rightarrow>
        Suc 0 < length sched \<and>
        loan_balance (sched ! Suc 0) \<le> loan_balance (sched ! 0) \<and>
        (\<exists>b. eps < b \<and> loan_balance (sched ! 0) = py_round b 2) \<and>
        0 \<le> loan_balance (sched ! 0) \<and>
        loan_balance (last sched) = 0
    | _ \<Rightarrow> False)"
proof -
  let ?sched = "[\<lparr>payment_no = 1, principal_paid = 59, interest_paid = 1, loan_balance = 41,
           equity = [69 / 2, 59 / 2]\<rparr>,
         \<lparr>payment_no = 2, principal_paid = 41, interest_paid = 41 / 100, loan_balance = 0,
           equity = [55, 50]\<rparr>]"
  note T = monotonic_payoff[OF example_run]
  have k: "Suc 0 < length ?sched" by simp
  have ne: "?sched \<noteq> []" by simp
  have rd: "(2::int) \<le> 5" by simp
  from T k have a: "loan_balance (?sched ! Suc 0) \<le> loan_balance (?sched ! 0) \<and>
      (\<exists>b. eps < b \<and> loan_balance (?sched ! 0) = py_round b 2)" by blast
  from T have "\<forall>k<length ?sched. 0 \<le> loan_balance (?sched ! k)" by blast
  then have b: "0 \<le> loan_balance (?sched ! 0)" by simp
  from T ne rd have c: "loan_balance (last ?sched) = 0" by blast
  show ?thesis
    by (subst example_run) (use a b c k in simp)
qed

text \<open>
  Claim C2 as stated fails in its middle part: a loan of 100 at 12 percent a year with one
  contribution of 100.999 leaves a balance of 0.001 after the first payment. The loop goes
  on (\<^verbatim>\<open>0.001 > 1e-6\<close>), so the first row is not the last one, and its \<^verbatim>\<open>Loan Balance\<close> is
  \<^verbatim>\<open>round(0.001, 2) = 0.0\<close>.
\<close>

theorem monotonic_payoff_counterexample:
  "amortization_shared 100 (12 / 100) 1 [100999 / 1000] [0] 2 =
     Some (Inr
       ([\<lparr>payment_no = 1, principal_paid = 100, interest_paid = 1, loan_balance = 0,
           equity = [100]\<rparr>,
         \<lparr>payment_no = 2, principal_paid = 0, interest_paid = 0, loan_balance = 0,
           equity = [100]\<rparr>],
        [\<lparr>year = 1, year_equity = [100], year_loan_balance = 0, total_equity = 100,
           share = [Some 1]\<rparr>]))"
  by code_simp








section \<open>Claims about the yearly roll-up\<close>

text \<open>
  A run that makes no payment: a loan amount of \<^verbatim>\<open>1e-7\<close>, below the loop tolerance.
\<close>

lemma tiny_loan_run:
  "amortization_shared (1 / 10 ^ 7) (12 / 100) 1 [1] [0] 2 = Some (Inr ([], []))"
  by code_simp

text \<open>
  Claim C9 (yearly roll-up), as amended. The rows of a returned schedule are numbered 1, 2,
  ... and row number \<open>p\<close> falls in year \<open>(p - 1) div 12 + 1\<close>. The roll-up has
  \<open>\<lceil>length sched / 12\<rceil>\<close> rows, the years 1, 2, ... in ascending order, and the row of a year
  takes its equities and its loan balance from the last schedule row of that year: row
  \<open>12 * j + 11\<close> for a full year \<open>j + 1\<close>, the last row of the schedule otherwise. The
  schedule is not empty when the loan amount exceeds the loop tolerance \<^verbatim>\<open>1e-6\<close>, and it is
  empty when the loan amount does not.
\<close>

theorem yearly_rollup_semantics:
  assumes run: "amortization_shared loan_amount annual_rate term_years monthly_contrib
      downpayments rounding = Some (Inr (sched, yearly))"
  shows "(\<forall>k<length sched.
            payment_no (sched ! k) = int k + 1 \<and> year_of (sched ! k) = int (k div 12) + 1) \<and>
         int (length yearly) = \<lceil>real (length sched) / 12\<rceil> \<and>
         (\<forall>j<length yearly.
            year (yearly ! j) = int j + 1 \<and>
            year_equity (yearly ! j) = equity (sched ! min (12 * j + 11) (length sched - 1)) \<and>
            year_loan_balance (yearly ! j)
              = loan_balance (sched ! min (12 * j + 11) (length sched - 1))) \<and>
         (eps < loan_amount \<longrightarrow> sched \<noteq> []) \<and>
         (loan_amount \<le> eps \<longrightarrow> sched = [])"
proof -
  note loop = amortization_shared_Inr(2)[OF run]
  have pn: "\<forall>k<length sched. payment_no (sched ! k) = int k + 1"
    using numbering_loop[OF loop] .
  have 1: "\<forall>k<length sched.
            payment_no (sched ! k) = int k + 1 \<and> year_of (sched ! k) = int (k div 12) + 1"
    using pn unfolding year_of_def by (simp add: zdiv_int)
  have y: "yearly = map make_year_row
      (map (\<lambda>j. (int j + 1, sched ! min (12 * j + 11) (length sched - 1)))
         [0..<(length sched + 11) div 12])"
    using amortization_shared_Inr(3)[OF run] groupby_last_rows[OF pn]
    unfolding yearly_rollup_def by simp
  have len: "length yearly = (length sched + 11) div 12" unfolding y by simp
  have 2: "int (length yearly) = \<lceil>real (length sched) / 12\<rceil>"
    unfolding len by (rule ceil_div_12)
  have 3: "\<forall>j<length yearly.
            year (yearly ! j) = int j + 1 \<and>
            year_equity (yearly ! j) = equity (sched ! min (12 * j + 11) (length sched - 1)) \<and>
            year_loan_balance (yearly ! j)
              = loan_balance (sched ! min (12 * j + 11) (length sched - 1))"
  proof (intro allI impI)
    fix j assume "j < length yearly"
    then have j: "j < (length sched + 11) div 12" using len by simp
    have "yearly ! j = make_year_row (int j + 1, sched ! min (12 * j + 11) (length sched - 1))"
      unfolding y using j by simp
    then show "year (yearly ! j) = int j + 1 \<and>
            year_equity (yearly ! j) = equity (sched ! min (12 * j + 11) (length sched - 1)) \<and>
            year_loan_balance (yearly ! j)
              = loan_balance (sched ! min (12 * j + 11) (length sched - 1))"
      by (simp add: make_year_row_def Let_def)
  qed
  have 4: "eps < loan_amount \<longrightarrow> sched \<noteq> []"
    using nonempty_loop[OF loop] by blast
  have 5: "loan_amount \<le> eps \<longrightarrow> sched = []"
  proof
    assume "loan_amount \<le> eps"
    then have "\<not> eps < balance (init_state loan_amount downpayments)"
      by (simp add: init_state_def)
    then have "amort_loop (annual_rate / 12) monthly_contrib rounding
        (init_state loan_amount downpayments) = Some (Inr [])"
      by (subst amort_loop.simps) (simp add: init_state_def)
    with loop show "sched = []" by simp
  qed
  from 1 2 3 4 5 show ?thesis by (intro conjI)
qed

theorem yearly_rollup_semantics_witness:
  "(case amortization_shared 1200 (12 / 100) 1 [100] [0] 0 of
      Some (Inr (sched, yearly)) \<Rightarrow>
        length sched = 13 \<and> length yearly = 2 \<and>
        payment_no (sched ! 12) = 13 \<and> year_of (sched ! 11) = 1 \<and> year_of (sched ! 12) = 2 \<and>
        int (length yearly) = \<lceil>real (length sched) / 12\<rceil> \<and>
        year (yearly ! 0) = 1 \<and>
        year_equity (yearly ! 0) = equity (sched ! 11) \<and>
        year_loan_balance (yearly ! 0) = loan_balance (sched ! 11) \<and>
        year (yearly ! 1) = 2 \<and>
        year_equity (yearly ! 1) = equity (sched ! 12) \<and>
        year_loan_balance (yearly ! 1) = loan_balance (sched ! 12) \<and>
        sched \<noteq> []
    | _ \<Rightarrow> False) \<and>
   (case amortization_shared (1 / 10 ^ 7) (12 / 100) 1 [1] [0] 2 of
      Some (Inr (sched, yearly)) \<Rightarrow> sched = [] \<and> int (length yearly) = \<lceil>real (length sched) / 12\<rceil>
    | _ \<Rightarrow> False)"
proof -
  obtain sched0 yearly0 where run0: "amortization_shared (1 / 10 ^ 7) (12 / 100) 1 [1] [0] 2
      = Some (Inr (sched0, yearly0))"
    using tiny_loan_run by simp
  have small: "(1 / 10 ^ 7 :: real) \<le> eps" by (simp add: eps_def)
  note Z = yearly_rollup_semantics[OF run0]
  from Z small have z1: "sched0 = []" by blast
  from Z have z2: "int (length yearly0) = \<lceil>real (length sched0) / 12\<rceil>" by blast
  have tiny: "(case amortization_shared (1 / 10 ^ 7) (12 / 100) 1 [1] [0] 2 of
      Some (Inr (sched, yearly)) \<Rightarrow> sched = [] \<and> int (length yearly) = \<lceil>real (length sched) / 12\<rceil>
    | _ \<Rightarrow> False)"
    by (subst run0) (use z1 z2 in simp)
  obtain sched yearly where run: "amortization_shared 1200 (12 / 100) 1 [100] [0] 0
      = Some (Inr (sched, yearly))"
    and ls: "length sched = 13" and ly: "length yearly = 2"
    using two_year_run by simp
  note T = yearly_rollup_semantics[OF run]
  have g: "eps < (1200::real)" by (simp add: eps_def)
  from T g have ne: "sched \<noteq> []" by blast
  from T have c: "int (length yearly) = \<lceil>real (length sched) / 12\<rceil>" by blast
  from T have A: "\<forall>k<length sched.
      payment_no (sched ! k) = int k + 1 \<and> year_of (sched ! k) = int (k div 12) + 1"
    by blast
  have a: "payment_no (sched ! 12) = 13 \<and> year_of (sched ! 11) = 1 \<and> year_of (sched ! 12) = 2"
    using A[rule_format, of 12] A[rule_format, of 11] ls by simp
  from T have B: "\<forall>j<length yearly.
            year (yearly ! j) = int j + 1 \<and>
            year_equity (yearly ! j) = equity (sched ! min (12 * j + 11) (length sched - 1)) \<and>
            year_loan_balance (yearly ! j)
              = loan_balance (sched ! min (12 * j + 11) (length sched - 1))"
    by blast
  have b0: "year (yearly ! 0) = 1 \<and> year_equity (yearly ! 0) = equity (sched ! 11) \<and>
      year_loan_balance (yearly ! 0) = loan_balance (sched ! 11)"
    using B[rule_format, of 0] ls ly by simp
  have b1: "year (yearly ! 1) = 2 \<and> year_equity (yearly ! 1) = equity (sched ! 12) \<and>
      year_loan_balance (yearly ! 1) = loan_balance (sched ! 12)"
    using B[rule_format, of 1] ls ly by simp
  have "(case amortization_shared 1200 (12 / 100) 1 [100] [0] 0 of
      Some (Inr (sched, yearly)) \<Rightarrow>
        length sched = 13 \<and> length yearly = 2 \<and>
        payment_no (sched ! 12) = 13 \<and> year_of (sched ! 11) = 1 \<and> year_of (sched ! 12) = 2 \<and>
        int (length yearly) = \<lceil>real (length sched) / 12\<rceil> \<and>
        year (yearly ! 0) = 1 \<and>
        year_equity (yearly ! 0) = equity (sched ! 11) \<and>
        year_loan_balance (yearly ! 0) = loan_balance (sched ! 11) \<and>
        year (yearly ! 1) = 2 \<and>
        year_equity (yearly ! 1) = equity (sched ! 12) \<and>
        year_loan_balance (yearly ! 1) = loan_balance (sched ! 12) \<and>
        sched \<noteq> []
    | _ \<Rightarrow> False)"
    by (subst run) (use ls ly a b0 b1 c ne in simp)
  with tiny show ?thesis by blast
qed

text \<open>
  Claim C9 as stated fails in its guarantee that the schedule is not empty: a loan amount of
  \<^verbatim>\<open>1e-7\<close> meets the preconditions (it is positive) and the contribution of 1 covers the
  interest, but \<^verbatim>\<open>balance > 1e-6\<close> is false at the first test of the loop, so no payment is
  made and both tables are empty.
\<close>

theorem yearly_rollup_semantics_counterexample:
  "amortization_shared (1 / 10 ^ 7) (12 / 100) 1 [1] [0] 2 = Some (Inr ([], []))"
  by (rule tiny_loan_run)

text \<open>
  A run whose only year ends with a total equity of zero: a loan of 0.4, one contribution
  of 1, no down payment, no decimals.
\<close>

lemma zero_equity_run:
  "amortization_shared (4 / 10) (12 / 100) 1 [1] [0] 0 =
     Some (Inr
       ([\<lparr>payment_no = 1, principal_paid = 0, interest_paid = 0, loan_balance = 0,
           equity = [0]\<rparr>],
        [\<lparr>year = 1, year_equity = [0], year_loan_balance = 0, total_equity = 0,
           share = [None]\<rparr>]))"
  by code_simp

text \<open>
  Claim C8 (share normalization), as amended. In every row of a returned roll-up the total
  equity is the sum of the row's (rounded) equities and each share is the quotient of line
  95. When the total is not zero the shares are \<open>equity / total\<close> and add up to 1, and with
  contributions and down payments that are not negative each of them lies between 0 and 1.
  When the total is zero every share is the quotient \<open>0 / 0\<close> of pandas, not a number.
\<close>

theorem share_normalization:
  assumes run: "amortization_shared loan_amount annual_rate term_years monthly_contrib
      downpayments rounding = Some (Inr (sched, yearly))"
  shows "(\<forall>y\<in>set yearly.
            total_equity y = sum_list (year_equity y) \<and>
            share y = map (share_of (total_equity y)) (year_equity y) \<and>
            (total_equity y = 0 \<longrightarrow> (\<forall>sh\<in>set (share y). sh = None)) \<and>
            (total_equity y \<noteq> 0 \<longrightarrow>
               sum_list (map the (share y)) = 1 \<and>
               (\<forall>i<length (share y).
                  share y ! i = Some (year_equity y ! i / total_equity y)))) \<and>
         ((\<forall>c\<in>set monthly_contrib. 0 \<le> c) \<and> (\<forall>d\<in>set downpayments. 0 \<le> d) \<longrightarrow>
            (\<forall>y\<in>set yearly.
               length (share y) = length monthly_contrib \<and> 0 \<le> total_equity y \<and>
               (total_equity y \<noteq> 0 \<longrightarrow>
                  (\<forall>sh\<in>set (share y). \<exists>x. sh = Some x \<and> 0 \<le> x \<and> x \<le> 1))))"
proof -
  have A: "total_equity y = sum_list (year_equity y) \<and>
            share y = map (share_of (total_equity y)) (year_equity y) \<and>
            (total_equity y = 0 \<longrightarrow> (\<forall>sh\<in>set (share y). sh = None)) \<and>
            (total_equity y \<noteq> 0 \<longrightarrow>
               sum_list (map the (share y)) = 1 \<and>
               (\<forall>i<length (share y).
                  share y ! i = Some (year_equity y ! i / total_equity y)))"
    if "y \<in> set yearly" for y
  proof -
    from that obtain yr r where y: "y = make_year_row (yr, r)"
      using amortization_shared_Inr(3)[OF run] unfolding yearly_rollup_def by auto
    have t: "total_equity y = sum_list (year_equity y)"
      unfolding y by (simp add: make_year_row_shares)
    have s: "share y = map (share_of (total_equity y)) (year_equity y)"
      unfolding y by (simp add: make_year_row_shares)
    have z: "\<forall>sh\<in>set (share y). sh = None" if "total_equity y = 0"
      by (subst s) (use that in \<open>simp add: share_of_def\<close>)
    have o: "sum_list (map the (share y)) = 1" if "total_equity y \<noteq> 0"
      by (subst s) (use that t in \<open>intro shares_sum\<close>)
    have q: "\<forall>i<length (share y). share y ! i = Some (year_equity y ! i / total_equity y)"
      if "total_equity y \<noteq> 0"
    proof (intro allI impI)
      fix i assume "i < length (share y)"
      then have "i < length (year_equity y)" using s by (metis length_map)
      then have "share y ! i = share_of (total_equity y) (year_equity y ! i)"
        by (subst s) simp
      then show "share y ! i = Some (year_equity y ! i / total_equity y)"
        using that by (simp add: share_of_def)
    qed
    from t s z o q show ?thesis by blast
  qed
  have B: "length (share y) = length monthly_contrib \<and> 0 \<le> total_equity y \<and>
               (total_equity y \<noteq> 0 \<longrightarrow>
                  (\<forall>sh\<in>set (share y). \<exists>x. sh = Some x \<and> 0 \<le> x \<and> x \<le> 1))"
    if nn: "(\<forall>c\<in>set monthly_contrib. 0 \<le> c) \<and> (\<forall>d\<in>set downpayments. 0 \<le> d)"
      and yin: "y \<in> set yearly" for y
  proof -
    note len = amortization_shared_Inr(1)[OF run]
    note L = equity_loop[OF amortization_shared_Inr(2)[OF run] len nn[THEN conjunct1]]
    from yin obtain yr r where y: "y = make_year_row (yr, r)"
      and g: "(yr, r) \<in> set (groupby_last sched)"
      using amortization_shared_Inr(3)[OF run] unfolding yearly_rollup_def by auto
    have r: "r \<in> set sched" using groupby_last_mem[OF g] .
    have enn: "\<forall>e\<in>set (equity r). 0 \<le> e"
      using equity_rows_nonneg[OF L[THEN conjunct1] L[THEN conjunct2, THEN conjunct1]
          L[THEN conjunct2, THEN conjunct2] nn[THEN conjunct2] len r] .
    from r obtain k where "k < length sched" and "r = sched ! k"
      by (auto simp: in_set_conv_nth)
    then have el: "length (equity r) = length monthly_contrib" using L by simp
    have s: "share y = map (share_of (sum_list (equity r))) (equity r)"
      and t: "total_equity y = sum_list (equity r)"
      unfolding y by (simp_all add: make_year_row_shares)
    have 1: "length (share y) = length monthly_contrib" unfolding s using el by simp
    have t0: "0 \<le> total_equity y" unfolding t using enn by (simp add: sum_list_nonneg)
    have 3: "\<forall>sh\<in>set (share y). \<exists>x. sh = Some x \<and> 0 \<le> x \<and> x \<le> 1" if nz: "total_equity y \<noteq> 0"
    proof
      fix sh assume "sh \<in> set (share y)"
      then obtain e where e: "e \<in> set (equity r)" and sh: "sh = share_of (sum_list (equity r)) e"
        unfolding s by auto
      have pos: "0 < sum_list (equity r)" using t0 nz unfolding t by simp
      have "0 \<le> e" using enn e by simp
      moreover have "e \<le> sum_list (equity r)" using member_le_sum_list_real[OF enn e] .
      ultimately have "0 \<le> e / sum_list (equity r) \<and> e / sum_list (equity r) \<le> 1"
        using pos by simp
      moreover have "sh = Some (e / sum_list (equity r))"
        unfolding sh using pos by (simp add: share_of_def)
      ultimately show "\<exists>x. sh = Some x \<and> 0 \<le> x \<and> x \<le> 1" by blast
    qed
    from 1 t0 3 show ?thesis by blast
  qed
  from A B show ?thesis by blast
qed

theorem share_normalization_witness:
  "(case amortization_shared 100 (12 / 100) 1 [30, 30] [5, 0] 2 of
      Some (Inr (sched, yearly)) \<Rightarrow>
        yearly \<noteq> [] \<and>
        total_equity (yearly ! 0) = sum_list (year_equity (yearly ! 0)) \<and>
        total_equity (yearly ! 0) \<noteq> 0 \<and>
        share (yearly ! 0) = [Some (11 / 21), Some (10 / 21)] \<and>
        sum_list (map the (share (yearly ! 0))) = 1 \<and>
        length (share (yearly ! 0)) = length [30, 30 :: real] \<and>
        list_all (\<lambda>sh. \<exists>x. sh = Some x \<and> 0 \<le> x \<and> x \<le> 1) (share (yearly ! 0))
    | _ \<Rightarrow> False) \<and>
   (case amortization_shared (4 / 10) (12 / 100) 1 [1] [0] 0 of
      Some (Inr (sched, yearly)) \<Rightarrow>
        yearly \<noteq> [] \<and> total_equity (yearly ! 0) = 0 \<and>
        list_all (\<lambda>sh. sh = None) (share (yearly ! 0))
    | _ \<Rightarrow> False)"
proof -
  let ?y = "\<lparr>year = 1, year_equity = [55, 50], year_loan_balance = 0, total_equity = 105,
           share = [Some (11 / 21), Some (10 / 21)]\<rparr>"
  let ?z = "\<lparr>year = 1, year_equity = [0], year_loan_balance = 0, total_equity = 0,
           share = [None]\<rparr>"
  note T = share_normalization[OF example_run]
  note Z = share_normalization[OF zero_equity_run]
  have yin: "?y \<in> set [?y]" by simp
  have zin: "?z \<in> set [?z]" by simp
  have nz: "total_equity ?y \<noteq> 0" by simp
  have zz: "total_equity ?z = 0" by simp
  have nn: "(\<forall>c\<in>set [30, 30 :: real]. 0 \<le> c) \<and> (\<forall>d\<in>set [5, 0 :: real]. 0 \<le> d)" by simp
  from T yin have a: "total_equity ?y = sum_list (year_equity ?y)" by blast
  from T yin nz have b: "sum_list (map the (share ?y)) = 1" by blast
  from T yin nn have c: "length (share ?y) = length [30, 30 :: real]" by blast
  from T yin nn nz have "\<forall>sh\<in>set (share ?y). \<exists>x. sh = Some x \<and> 0 \<le> x \<and> x \<le> 1" by blast
  then have d: "list_all (\<lambda>sh. \<exists>x. sh = Some x \<and> 0 \<le> x \<and> x \<le> 1) (share ?y)"
    by (simp only: list_all_iff)
  from Z zin zz have "\<forall>sh\<in>set (share ?z). sh = None" by blast
  then have e: "list_all (\<lambda>sh. sh = None) (share ?z)"
    by (simp only: list_all_iff)
  have 1: "(case amortization_shared 100 (12 / 100) 1 [30, 30] [5, 0] 2 of
      Some (Inr (sched, yearly)) \<Rightarrow>
        yearly \<noteq> [] \<and>
        total_equity (yearly ! 0) = sum_list (year_equity (yearly ! 0)) \<and>
        total_equity (yearly ! 0) \<noteq> 0 \<and>
        share (yearly ! 0) = [Some (11 / 21), Some (10 / 21)] \<and>
        sum_list (map the (share (yearly ! 0))) = 1 \<and>
        length (share (yearly ! 0)) = length [30, 30 :: real] \<and>
        list_all (\<lambda>sh. \<exists>x. sh = Some x \<and> 0 \<le> x \<and> x \<le> 1) (share (yearly ! 0))
    | _ \<Rightarrow> False)"
    by (subst example_run) (use a b c d in simp)
  have 2: "(case amortization_shared (4 / 10) (12 / 100) 1 [1] [0] 0 of
      Some (Inr (sched, yearly)) \<Rightarrow>
        yearly \<noteq> [] \<and> total_equity (yearly ! 0) = 0 \<and>
        list_all (\<lambda>sh. sh = None) (share (yearly ! 0))
    | _ \<Rightarrow> False)"
    by (subst zero_equity_run) (use e in simp)
  from 1 2 show ?thesis by (rule conjI)
qed

text \<open>
  Claim C8 as stated fails when the total equity of a year is zero: a loan of 0.4 paid off
  by one contribution of 1, with no down payment and no decimals, leaves the borrower an
  equity of \<^verbatim>\<open>round(0.4, 0) = 0.0\<close>. The total equity of year 1 is 0 and the share is
  \<^verbatim>\<open>0.0 / 0.0\<close>, not a number: it is not in the interval from 0 to 1 and the shares do not
  add up to 1.
\<close>

theorem share_normalization_counterexample:
  "amortization_shared (4 / 10) (12 / 100) 1 [1] [0] 0 =
     Some (Inr
       ([\<lparr>payment_no = 1, principal_paid = 0, interest_paid = 0, loan_balance = 0,
           equity = [0]\<rparr>],
        [\<lparr>year = 1, year_equity = [0], year_loan_balance = 0, total_equity = 0,
           share = [None]\<rparr>]))"
  by (rule zero_equity_run)

end
